(* ===== verification/Prelude.thy ===== *)
theory Prelude
  imports Complex_Main "HOL-Library.Word" "HOL-Library.Char_ord" "HOL-Library.List_Lexorder"
    "HOL-Library.Sublist"
begin

text \<open>
  Shared ground of the development: the machine types of the Rust server as type synonyms, the
  pieces of Rust's standard library that the sources call on strings and numbers (decimal
  rendering, fixed-precision rendering, \<open>trim\<close>, the code points of a UTF-8 string), and generic
  lemmas on lists, options and maps. Strings are byte strings (\<open>string\<close> is a list of 8-bit
  \<open>char\<close>), as Rust's \<open>String\<close> is a UTF-8 byte vector. An \<open>f64\<close> is an exact rational: the values
  that reach the alarm logic are small integers and decimal constants.
\<close>

section \<open>Types\<close>

type_synonym u16 = "16 word"
type_synonym u32 = "32 word"
type_synonym u64 = "64 word"
type_synonym f64 = rat

text \<open>Wall-clock and monotonic time, in nanoseconds.\<close>
type_synonym time = int

text \<open>\<open>Result<T, String>\<close>: \<open>Inl\<close> is \<open>Err\<close>, \<open>Inr\<close> is \<open>Ok\<close>.\<close>
type_synonym 'a result = "string + 'a"

text \<open>
  Collections the components extend: \<open>frame\<close> says which parts of the state an operation leaves
  alone, \<open>keeps\<close> that it preserves an invariant.
\<close>
named_theorems frame
named_theorems keeps

definition is_ok :: "'a result \<Rightarrow> bool" where
  "is_ok r = (case r of Inl _ \<Rightarrow> False | Inr _ \<Rightarrow> True)"

lemma is_ok_simps [simp]: "is_ok (Inr x)" "\<not> is_ok (Inl e)"
  by (simp_all add: is_ok_def)

section \<open>Decimal rendering\<close>

definition digit :: "nat \<Rightarrow> char" where
  "digit d = char_of (48 + d)"

fun show_nat :: "nat \<Rightarrow> string" where
  "show_nat n = (if n < 10 then [digit n] else show_nat (n div 10) @ [digit (n mod 10)])"

declare show_nat.simps [simp del]

definition show_int :: "int \<Rightarrow> string" where
  "show_int i = (if i < 0 then CHR ''-'' # show_nat (nat (- i)) else show_nat (nat i))"

text \<open>\<open>format!("{:0w}", n)\<close>: zero padding to a minimal width.\<close>
definition show_padded :: "nat \<Rightarrow> nat \<Rightarrow> string" where
  "show_padded w n = replicate (w - length (show_nat n)) (CHR ''0'') @ show_nat n"

text \<open>\<open>format!("{:.p}", x)\<close> for a finite \<open>f64\<close>: round half to even on the exact value.\<close>
definition round_even :: "rat \<Rightarrow> int" where
  "round_even r = (let f = floor r; d = r - of_int f in
     if d < 1 / 2 then f else if 1 / 2 < d then f + 1 else if even f then f else f + 1)"

definition show_fixed :: "nat \<Rightarrow> f64 \<Rightarrow> string" where
  "show_fixed p r = (let k = nat (round_even (\<bar>r\<bar> * 10 ^ p)) in
     (if r < 0 then ''-'' else '''') @ show_nat (k div 10 ^ p) @
     (if p = 0 then '''' else CHR ''.'' # show_padded p (k mod 10 ^ p)))"

definition show_u16 :: "u16 \<Rightarrow> string" where "show_u16 w = show_nat (unat w)"
definition show_u32 :: "u32 \<Rightarrow> string" where "show_u32 w = show_nat (unat w)"

text \<open>The casts \<open>w as f64\<close> (exact) and \<open>x as u16\<close> (truncating and saturating).\<close>
definition u16_as_f64 :: "u16 \<Rightarrow> f64" where
  "u16_as_f64 w = rat_of_int (uint w)"

definition f64_as_u16 :: "f64 \<Rightarrow> u16" where
  "f64_as_u16 x = (if x < 0 then 0 else if 65535 \<le> x then 65535 else word_of_int (floor x))"

lemma u16_f64_roundtrip [simp]: "f64_as_u16 (u16_as_f64 w) = w"
proof -
  have b: "0 \<le> uint w" "uint w < 65536" using uint_bounded [of w] by simp_all
  have le: "65535 \<le> rat_of_int i \<longleftrightarrow> 65535 \<le> i" for i
    using of_int_le_iff [of 65535 i, where 'a = rat] by simp
  obtain i where i: "uint w = i" by simp
  have w: "w = word_of_int i" unfolding i [symmetric] by simp
  have "i = 65535" if "65535 \<le> i" using that b unfolding i by simp
  moreover have "\<not> rat_of_int i < 0" using b unfolding i by simp
  ultimately have "f64_as_u16 (rat_of_int i) = word_of_int i"
    unfolding f64_as_u16_def le by auto
  then show ?thesis unfolding u16_as_f64_def i by (simp add: w [symmetric])
qed

text \<open>A reader for the decimal digits, used only to show that rendering loses nothing.\<close>

definition digit_value :: "char \<Rightarrow> nat" where
  "digit_value c = of_char c - 48"

definition decimal_value :: "string \<Rightarrow> nat" where
  "decimal_value s = foldl (\<lambda>n c. 10 * n + digit_value c) 0 s"

lemma digit_value_digit [simp]: "d < 10 \<Longrightarrow> digit_value (digit d) = d"
  by (simp add: digit_value_def digit_def)

lemma decimal_value_snoc [simp]:
  "decimal_value (s @ [c]) = 10 * decimal_value s + digit_value c"
  by (simp add: decimal_value_def)

lemma decimal_value_show_nat [simp]: "decimal_value (show_nat n) = n"
proof (induction n rule: show_nat.induct)
  case (1 n)
  show ?case
  proof (cases "n < 10")
    case True
    then show ?thesis by (simp add: show_nat.simps [of n] decimal_value_def)
  next
    case False
    with "1.IH" have "decimal_value (show_nat (n div 10)) = n div 10" by simp
    with False show ?thesis by (simp add: show_nat.simps [of n])
  qed
qed

lemma show_nat_inject [simp]: "show_nat m = show_nat n \<longleftrightarrow> m = n"
  by (metis decimal_value_show_nat)

lemma digit_value_zero [simp]: "digit_value (CHR ''0'') = 0"
  by (simp add: digit_value_def)

lemma decimal_value_zeros: "decimal_value (replicate k (CHR ''0'') @ s) = decimal_value s"
proof (induction k)
  case (Suc k)
  then show ?case by (simp add: decimal_value_def)
qed simp

lemma decimal_value_show_padded [simp]: "decimal_value (show_padded w n) = n"
  by (simp add: show_padded_def decimal_value_zeros)

lemma show_padded_inject [simp]: "show_padded w m = show_padded w n \<longleftrightarrow> m = n"
  by (metis decimal_value_show_padded)

lemma show_nat_nonempty [simp]: "show_nat n \<noteq> []"
  by (subst show_nat.simps) simp

lemma show_u16_inject [simp]: "show_u16 a = show_u16 b \<longleftrightarrow> a = b"
  by (simp add: show_u16_def word_unat_eq_iff)

section \<open>String helpers of the standard library\<close>

text \<open>The message fragments that put a name in single quotes.\<close>
definition quoted :: "string \<Rightarrow> string" where
  "quoted s = [CHR 0x27] @ s @ [CHR 0x27]"

lemma quoted_inject [simp]: "quoted s = quoted t \<longleftrightarrow> s = t"
  by (simp add: quoted_def)

text \<open>\<open>s.strip_prefix(p)\<close>.\<close>
definition strip_prefix :: "string \<Rightarrow> string \<Rightarrow> string option" where
  "strip_prefix p s = (if take (length p) s = p then Some (drop (length p) s) else None)"

lemma strip_prefix_Some: "strip_prefix p s = Some t \<longleftrightarrow> s = p @ t"
  unfolding strip_prefix_def
  by (auto simp: append_eq_conv_conj) (metis append_take_drop_id)

text \<open>\<open>s.split(c).next()\<close>: the part before the first separator.\<close>
definition split_first :: "char \<Rightarrow> string \<Rightarrow> string" where
  "split_first c s = takeWhile (\<lambda>x. x \<noteq> c) s"

text \<open>\<open>parts.join(sep)\<close> is the concatenation of \<open>intersperse sep parts\<close>.\<close>
fun intersperse :: "'a \<Rightarrow> 'a list \<Rightarrow> 'a list" where
  "intersperse sep [] = []"
| "intersperse sep [x] = [x]"
| "intersperse sep (x # y # xs) = x # sep # intersperse sep (y # xs)"

text \<open>\<open>s.contains(p)\<close>.\<close>
fun contains :: "string \<Rightarrow> string \<Rightarrow> bool" where
  "contains p s = (take (length p) s = p \<or> (case s of [] \<Rightarrow> False | _ # t \<Rightarrow> contains p t))"

declare contains.simps [simp del]

lemma contains_sublist: "contains p s \<longleftrightarrow> sublist p s"
proof (induction p s rule: contains.induct)
  case (1 p s)
  have pre: "take (length p) s = p \<longleftrightarrow> prefix p s"
    by (auto simp: prefix_def) (metis append_take_drop_id)
  show ?case
  proof (cases s)
    case Nil
    with pre show ?thesis by (simp add: contains.simps [of p "[]"])
  next
    case (Cons c t)
    with 1 have "contains p t \<longleftrightarrow> sublist p t" by simp
    with Cons pre show ?thesis
      by (simp add: contains.simps [of p "c # t"] sublist_Cons_right)
  qed
qed

text \<open>The UTF-8 encodings of the code points with the Unicode property White_Space.\<close>
definition white_space :: "string list" where
  "white_space = [[CHR 0x09], [CHR 0x0A], [CHR 0x0B], [CHR 0x0C], [CHR 0x0D], [CHR 0x20],
     [CHR 0xC2, CHR 0x85], [CHR 0xC2, CHR 0xA0], [CHR 0xE1, CHR 0x9A, CHR 0x80],
     [CHR 0xE2, CHR 0x80, CHR 0x80], [CHR 0xE2, CHR 0x80, CHR 0x81],
     [CHR 0xE2, CHR 0x80, CHR 0x82], [CHR 0xE2, CHR 0x80, CHR 0x83],
     [CHR 0xE2, CHR 0x80, CHR 0x84], [CHR 0xE2, CHR 0x80, CHR 0x85],
     [CHR 0xE2, CHR 0x80, CHR 0x86], [CHR 0xE2, CHR 0x80, CHR 0x87],
     [CHR 0xE2, CHR 0x80, CHR 0x88], [CHR 0xE2, CHR 0x80, CHR 0x89],
     [CHR 0xE2, CHR 0x80, CHR 0x8A], [CHR 0xE2, CHR 0x80, CHR 0xA8],
     [CHR 0xE2, CHR 0x80, CHR 0xA9], [CHR 0xE2, CHR 0x80, CHR 0xAF],
     [CHR 0xE2, CHR 0x81, CHR 0x9F], [CHR 0xE3, CHR 0x80, CHR 0x80]]"

text \<open>
  Remove, from the front, every prefix that is in a list of non-empty sequences. Fuel is the
  length of the text: each removal shortens it.
\<close>
fun drop_seqs :: "nat \<Rightarrow> string list \<Rightarrow> string \<Rightarrow> string" where
  "drop_seqs 0 ws s = s"
| "drop_seqs (Suc n) ws s =
     (case find (\<lambda>w. take (length w) s = w) ws of
        None \<Rightarrow> s | Some w \<Rightarrow> drop_seqs n ws (drop (length w) s))"

text \<open>\<open>str::trim\<close> on valid UTF-8.\<close>
definition trim :: "string \<Rightarrow> string" where
  "trim s = (let t = drop_seqs (length s) white_space s in
     rev (drop_seqs (length t) (map rev white_space) (rev t)))"

text \<open>\<open>s.chars()\<close> as code points, for a valid UTF-8 byte string.\<close>
fun chars :: "string \<Rightarrow> nat list" where
  "chars [] = []"
| "chars (a # s) = (let x = of_char a in
     if x < 128 then x # chars s
     else (case s of
        [] \<Rightarrow> []
      | b # s1 \<Rightarrow> let y = of_char b mod 64 in
          if x < 224 then (x mod 32 * 64 + y) # chars s1
          else (case s1 of
             [] \<Rightarrow> []
           | c # s2 \<Rightarrow> let z = of_char c mod 64 in
               if x < 240 then (x mod 16 * 4096 + y * 64 + z) # chars s2
               else (case s2 of
                  [] \<Rightarrow> []
                | d # s3 \<Rightarrow>
                    (x mod 8 * 262144 + y * 4096 + z * 64 + of_char d mod 64) # chars s3))))"

lemma chars_ascii: "(\<And>c. c \<in> set s \<Longrightarrow> of_char c < (128::nat)) \<Longrightarrow> chars s = map of_char s"
  by (induction s) (auto simp: Let_def)

section \<open>Generic lemmas\<close>

lemma uint_eq_iff: "uint a = uint b \<longleftrightarrow> a = b" for a b :: "'a::len word"
  by (auto intro: word_uint_eqI)

lemma filter_map_id:
  "(\<And>x. x \<in> set xs \<Longrightarrow> P (f x) = P x) \<Longrightarrow> filter P (map f xs) = map f (filter P xs)"
  by (induction xs) auto

lemma sorted_wrt_rev_desc:
  "sorted_wrt (<) (map k xs) \<Longrightarrow> sorted_wrt (\<lambda>a b. k b < k a) (rev xs)"
  for k :: "'a \<Rightarrow> int"
  by (simp add: sorted_wrt_rev sorted_wrt_map)

lemma list_all2_map_left: "(\<And>x. x \<in> set xs \<Longrightarrow> P x (f x)) \<Longrightarrow> list_all2 P xs (map f xs)"
  by (induction xs) auto

lemma list_all2_set1:
  "list_all2 P xs ys \<Longrightarrow> x \<in> set xs \<Longrightarrow> \<exists>y \<in> set ys. P x y"
  by (induction rule: list_all2_induct) auto

lemma find_map_same:
  "(\<And>r. k (f r) = k r) \<Longrightarrow>
   find (\<lambda>r. k r = i) (map f xs) = map_option f (find (\<lambda>r. k r = i) xs)"
  by (induction xs) auto

end
