(* ===== verification/Models.thy ===== *)
theory Models
  imports Prelude
begin

text \<open>
  The shared data of the server: \<open>server/src/models.rs\<close>, the device and server configuration
  records of \<open>config.rs\<close>, the roles and token claims of \<open>auth.rs\<close>. Enums are datatypes with the
  source's constructors; the text and integer codes that the database columns hold are functions
  on them, with the lemmas that decoding inverts encoding.
\<close>

section \<open>JSON values\<close>

datatype json =
    JNull | JBool bool | JInt int | JReal f64 | JStr string
  | JArr "json list" | JObj "(string \<times> json) list"

definition jopt :: "string option \<Rightarrow> json" where
  "jopt x = (case x of None \<Rightarrow> JNull | Some s \<Rightarrow> JStr s)"

section \<open>PLC data, devices and requests\<close>

record plc_data =
  pd_device_id :: string
  pd_register :: u16
  pd_value :: f64
  pd_timestamp :: time

record plc_device =
  pv_id :: string
  pv_name :: string
  pv_address :: string
  pv_protocol :: string
  pv_is_connected :: bool

record 'a api_response =
  success :: bool
  data :: "'a option"
  api_error :: "string option"

record write_request =
  wr_device_id :: string
  wr_register :: u16
  wr_value :: u16

record add_device_request =
  ar_id :: string
  ar_name :: string
  ar_address :: string
  ar_protocol :: string
  ar_poll_rate_ms :: "u64 option"
  ar_register_start :: u16
  ar_register_count :: u16
  ar_writable :: "u16 list"

record scan_request =
  sr_targets :: "string list option"
  sr_ports :: "u16 list option"

record device_config =
  dc_id :: string
  dc_name :: string
  dc_address :: string
  dc_protocol :: string
  dc_poll_rate_ms :: u64
  dc_register_start :: u16
  dc_register_count :: u16
  dc_writable :: "u16 list"

section \<open>Alarms\<close>

datatype AlarmPriority = Critical | High | Medium | Low | Info

definition priority_from_i32 :: "int \<Rightarrow> AlarmPriority" where
  "priority_from_i32 v = (if v = 1 then Critical else if v = 2 then High
     else if v = 3 then Medium else if v = 4 then Low else Info)"

fun priority_as_i32 :: "AlarmPriority \<Rightarrow> int" where
  "priority_as_i32 Critical = 1"
| "priority_as_i32 High = 2"
| "priority_as_i32 Medium = 3"
| "priority_as_i32 Low = 4"
| "priority_as_i32 Info = 5"

fun priority_as_str :: "AlarmPriority \<Rightarrow> string" where
  "priority_as_str Critical = ''critical''"
| "priority_as_str High = ''high''"
| "priority_as_str Medium = ''medium''"
| "priority_as_str Low = ''low''"
| "priority_as_str Info = ''info''"

lemma priority_roundtrip [simp]: "priority_from_i32 (priority_as_i32 p) = p"
  by (cases p) (simp_all add: priority_from_i32_def)

text \<open>Priorities are ordered by urgency: the smaller the ISA-18.2 code, the more urgent.\<close>
instantiation AlarmPriority :: linorder
begin
definition less_eq_AlarmPriority :: "AlarmPriority \<Rightarrow> AlarmPriority \<Rightarrow> bool" where
  "less_eq_AlarmPriority p q = (priority_as_i32 p \<le> priority_as_i32 q)"
definition less_AlarmPriority :: "AlarmPriority \<Rightarrow> AlarmPriority \<Rightarrow> bool" where
  "less_AlarmPriority p q = (priority_as_i32 p < priority_as_i32 q)"
instance
proof
  fix p q :: AlarmPriority
  assume "p \<le> q" and "q \<le> p"
  then show "p = q"
    by (metis antisym less_eq_AlarmPriority_def priority_roundtrip)
qed (auto simp: less_eq_AlarmPriority_def less_AlarmPriority_def)
end

datatype AlarmState = Active | Acknowledged | Cleared | Shelved

fun alarm_state_as_str :: "AlarmState \<Rightarrow> string" where
  "alarm_state_as_str Active = ''active''"
| "alarm_state_as_str Acknowledged = ''acknowledged''"
| "alarm_state_as_str Cleared = ''cleared''"
| "alarm_state_as_str Shelved = ''shelved''"

definition alarm_state_from_str :: "string \<Rightarrow> AlarmState" where
  "alarm_state_from_str s = (if s = ''acknowledged'' then Acknowledged
     else if s = ''cleared'' then Cleared else if s = ''shelved'' then Shelved else Active)"

lemma alarm_state_roundtrip [simp]: "alarm_state_from_str (alarm_state_as_str s) = s"
  by (cases s) (simp_all add: alarm_state_from_str_def)

record alarm =
  a_id :: int
  a_device_id :: string
  a_register :: u16
  a_label :: string
  a_priority :: AlarmPriority
  a_state :: AlarmState
  a_value :: f64
  a_threshold :: f64
  a_message :: string
  a_timestamp :: string
  a_acked_by :: "string option"
  a_acked_at :: "string option"
  a_shelved_until :: "string option"
  a_shelved_by :: "string option"
  a_cleared_at :: "string option"

record shelve_request =
  sh_duration_minutes :: u32
  sh_reason :: string

record raise_alarm_request =
  ra_device_id :: string
  ra_register :: u16
  ra_label :: string
  ra_priority :: AlarmPriority
  ra_value :: f64
  ra_threshold :: f64
  ra_message :: string

record alarm_query_params =
  aq_device_id :: "string option"
  aq_state :: "string option"
  aq_priority :: "int option"
  aq_limit :: "int option"

section \<open>Batches\<close>

datatype BatchStatus = Running | Completed | Aborted | Held

fun batch_status_as_str :: "BatchStatus \<Rightarrow> string" where
  "batch_status_as_str Running = ''running''"
| "batch_status_as_str Completed = ''completed''"
| "batch_status_as_str Aborted = ''aborted''"
| "batch_status_as_str Held = ''held''"

definition batch_status_from_str :: "string \<Rightarrow> BatchStatus" where
  "batch_status_from_str s = (if s = ''completed'' then Completed
     else if s = ''aborted'' then Aborted else if s = ''held'' then Held else Running)"

lemma batch_status_roundtrip [simp]: "batch_status_from_str (batch_status_as_str s) = s"
  by (cases s) (simp_all add: batch_status_from_str_def)

record batch_record =
  b_id :: int
  b_batch_id :: string
  b_recipe_name :: string
  b_device_id :: string
  b_operator :: string
  b_status :: BatchStatus
  b_start_time :: string
  b_end_time :: "string option"
  b_notes :: "string option"

record batch_step =
  bs_id :: int
  bs_batch_record_id :: int
  bs_step_number :: int
  bs_name :: string
  bs_status :: string
  bs_start_time :: string
  bs_end_time :: "string option"
  bs_parameters :: "string option"
  bs_result :: "string option"

record batch_query_params =
  bq_device_id :: "string option"
  bq_status :: "string option"
  bq_limit :: "int option"

section \<open>Roles and token claims\<close>

datatype Role = Viewer | Operator | Admin

definition role_from_str :: "string \<Rightarrow> Role" where
  "role_from_str s = (if s = ''admin'' then Admin
     else if s = ''operator'' then Operator else Viewer)"

fun role_as_str :: "Role \<Rightarrow> string" where
  "role_as_str Admin = ''admin''"
| "role_as_str Operator = ''operator''"
| "role_as_str Viewer = ''viewer''"

fun role_level :: "Role \<Rightarrow> int" where
  "role_level Viewer = 0"
| "role_level Operator = 1"
| "role_level Admin = 2"

definition has_permission :: "Role \<Rightarrow> Role \<Rightarrow> bool" where
  "has_permission r required = (role_level r \<ge> role_level required)"

lemma role_roundtrip [simp]: "role_from_str (role_as_str r) = r"
  by (cases r) (simp_all add: role_from_str_def)

lemma role_level_inject [simp]: "role_level r = role_level s \<longleftrightarrow> r = s"
  by (cases r; cases s) simp_all

text \<open>The privilege order of the roles.\<close>
instantiation Role :: linorder
begin
definition less_eq_Role :: "Role \<Rightarrow> Role \<Rightarrow> bool" where
  "less_eq_Role r s = (role_level r \<le> role_level s)"
definition less_Role :: "Role \<Rightarrow> Role \<Rightarrow> bool" where
  "less_Role r s = (role_level r < role_level s)"
instance
  by standard (auto simp: less_eq_Role_def less_Role_def dest: antisym)
end

lemma has_permission_iff: "has_permission r required \<longleftrightarrow> required \<le> r"
  by (simp add: has_permission_def less_eq_Role_def)

record claims =
  cl_sub :: string
  cl_role :: string
  cl_user_id :: string
  cl_exp :: int
  cl_iat :: int
  cl_session_id :: "string option"

record audit_entry =
  ae_id :: int
  ae_user_id :: string
  ae_username :: string
  ae_action :: string
  ae_device_id :: "string option"
  ae_details :: string
  ae_timestamp :: string
  ae_ip_address :: "string option"

record login_request =
  lr_username :: string
  lr_password :: string

record create_user_request =
  cu_username :: string
  cu_password :: string
  cu_role :: string

record esig_request =
  es_username :: string
  es_password :: string
  es_reason :: string

record audit_query_params =
  uq_user_id :: "string option"
  uq_device_id :: "string option"
  uq_action :: "string option"
  uq_limit :: "int option"

record http_response =
  status :: nat
  body :: json

end
