(* ===== verification/World.thy ===== *)
theory World
  imports Models
begin

text \<open>
  What the server runs against. \<open>libs\<close> bundles the third-party functions the sources call
  (chrono, serde\_json, jsonwebtoken, argon2, the Unicode tables): they are parameters, and what
  the code relies on is stated as predicates on them. \<open>world\<close> holds the SQLite tables that
  \<open>db::init_db_with_pool\<close> and \<open>auth::init_auth_tables\<close> create, and the answers the environment
  gives: for the \<open>n\<close>-th SQL statement whether the engine fails, and the \<open>n\<close>-th reading of the
  wall clock, of the monotonic clock, of the UUID generator and of the salt generator. Each SQL
  statement of the sources is written out on these tables: \<open>INSERT\<close> into an \<open>AUTOINCREMENT\<close>
  table, \<open>UPDATE .. WHERE\<close>, \<open>DELETE .. WHERE\<close>, \<open>SELECT .. WHERE .. ORDER BY .. LIMIT\<close>.
\<close>

section \<open>Third-party functions\<close>

record libs =
  to_rfc3339 :: "time \<Rightarrow> string"
  parse_rfc3339 :: "string \<Rightarrow> time option"
  parse_utc :: "string \<Rightarrow> time option"
  u16s_to_json :: "u16 list \<Rightarrow> string"
  u16s_from_json :: "string \<Rightarrow> u16 list option"
  json_text :: "json \<Rightarrow> string"
  json_time :: "time \<Rightarrow> string"
  parse_socket_addr :: "string \<Rightarrow> bool"
  jwt_encode :: "claims \<Rightarrow> string \<Rightarrow> string result"
  jwt_decode :: "string \<Rightarrow> string \<Rightarrow> time \<Rightarrow> claims result"
  argon2_hash :: "string \<Rightarrow> string \<Rightarrow> string result"
  phc_parses :: "string \<Rightarrow> bool"
  argon2_verify :: "string \<Rightarrow> string \<Rightarrow> bool"
  is_uppercase :: "nat \<Rightarrow> bool"
  is_lowercase :: "nat \<Rightarrow> bool"

text \<open>RFC 3339 texts of UTC times compare, byte by byte, as the times do.\<close>
definition rfc3339_ordered :: "libs \<Rightarrow> bool" where
  "rfc3339_ordered L \<longleftrightarrow>
     (\<forall>a b. 0 \<le> a \<and> 0 \<le> b \<longrightarrow> (to_rfc3339 L a < to_rfc3339 L b \<longleftrightarrow> a < b))"

text \<open>
  Both parsers (\<open>DateTime::parse_from_rfc3339\<close>, and \<open>str::parse\<close> at \<open>DateTime<Utc>\<close>) read the
  RFC 3339 text of a time after the epoch back to that time.
\<close>
definition rfc3339_parses :: "libs \<Rightarrow> bool" where
  "rfc3339_parses L \<longleftrightarrow> (\<forall>t. 0 \<le> t \<longrightarrow>
     parse_rfc3339 L (to_rfc3339 L t) = Some t \<and> parse_utc L (to_rfc3339 L t) = Some t)"

text \<open>serde\_json reads back the lists it writes.\<close>
definition u16s_json_roundtrip :: "libs \<Rightarrow> bool" where
  "u16s_json_roundtrip L \<longleftrightarrow> (\<forall>ws. u16s_from_json L (u16s_to_json L ws) = Some ws)"

text \<open>\<open>DateTime::timestamp()\<close>: whole seconds since the epoch.\<close>
definition timestamp :: "time \<Rightarrow> int" where
  "timestamp t = t div 1000000000"

text \<open>
  jsonwebtoken verifies what it has signed with the same secret, until the token expires; what it
  accepts has not expired by more than its leeway of 60 seconds. argon2 verifies a password against
  its own hash.
\<close>
definition jwt_verifies :: "libs \<Rightarrow> bool" where
  "jwt_verifies L \<longleftrightarrow> (\<forall>c k tok t. jwt_encode L c k = Inr tok \<and> 0 \<le> cl_exp c \<and> 0 \<le> cl_iat c \<and>
     timestamp t \<le> cl_exp c \<longrightarrow> jwt_decode L tok k t = Inr c)"

definition jwt_expires :: "libs \<Rightarrow> bool" where
  "jwt_expires L \<longleftrightarrow>
     (\<forall>tok k t c. jwt_decode L tok k t = Inr c \<longrightarrow> timestamp t \<le> cl_exp c + 60)"

definition argon2_correct :: "libs \<Rightarrow> bool" where
  "argon2_correct L \<longleftrightarrow> (\<forall>p s h. argon2_hash L p s = Inr h \<longrightarrow> phc_parses L h \<and> argon2_verify L p h)"

section \<open>SQL tables\<close>

text \<open>
  A table with an \<open>INTEGER PRIMARY KEY AUTOINCREMENT\<close> column: the rows in row-id order, and the
  largest id ever given out (SQLite's \<open>sqlite_sequence\<close>).
\<close>
record 'r table =
  rows :: "'r list"
  seq :: int

definition empty_table :: "'r table" where
  "empty_table = \<lparr>rows = [], seq = 0\<rparr>"

definition tbl_insert :: "(int \<Rightarrow> 'r) \<Rightarrow> 'r table \<Rightarrow> int \<times> 'r table" where
  "tbl_insert mk t = (seq t + 1, t\<lparr>rows := rows t @ [mk (seq t + 1)], seq := seq t + 1\<rparr>)"

definition tbl_update :: "('r \<Rightarrow> bool) \<Rightarrow> ('r \<Rightarrow> 'r) \<Rightarrow> 'r table \<Rightarrow> 'r table" where
  "tbl_update P f t = t\<lparr>rows := map (\<lambda>r. if P r then f r else r) (rows t)\<rparr>"

definition tbl_delete :: "('r \<Rightarrow> bool) \<Rightarrow> 'r table \<Rightarrow> 'r table" where
  "tbl_delete P t = t\<lparr>rows := filter (\<lambda>r. \<not> P r) (rows t)\<rparr>"

text \<open>\<open>ORDER BY k DESC\<close> for an integer column.\<close>
definition order_desc :: "('r \<Rightarrow> int) \<Rightarrow> 'r list \<Rightarrow> 'r list" where
  "order_desc k xs = sort_key (\<lambda>r. - k r) xs"

text \<open>\<open>LIMIT n\<close>: SQLite reads a negative limit as no limit.\<close>
definition sql_limit :: "int \<Rightarrow> 'r list \<Rightarrow> 'r list" where
  "sql_limit n xs = (if n < 0 then xs else take (nat n) xs)"

definition tbl_ok :: "('r \<Rightarrow> int) \<Rightarrow> 'r table \<Rightarrow> bool" where
  "tbl_ok rid t \<longleftrightarrow> 0 \<le> seq t \<and> sorted_wrt (<) (map rid (rows t)) \<and>
     (\<forall>r \<in> set (rows t). 1 \<le> rid r \<and> rid r \<le> seq t)"

lemma tbl_insert_simps [simp]:
  "fst (tbl_insert mk t) = seq t + 1"
  "rows (snd (tbl_insert mk t)) = rows t @ [mk (seq t + 1)]"
  "seq (snd (tbl_insert mk t)) = seq t + 1"
  by (simp_all add: tbl_insert_def)

lemma tbl_update_simps [simp]:
  "rows (tbl_update P f t) = map (\<lambda>r. if P r then f r else r) (rows t)"
  "seq (tbl_update P f t) = seq t"
  by (simp_all add: tbl_update_def)

lemma tbl_delete_simps [simp]:
  "rows (tbl_delete P t) = filter (\<lambda>r. \<not> P r) (rows t)"
  "seq (tbl_delete P t) = seq t"
  by (simp_all add: tbl_delete_def)

lemma tbl_ok_empty [simp]: "tbl_ok rid empty_table"
  by (simp add: tbl_ok_def empty_table_def)

lemma tbl_ok_delete [keeps]: "tbl_ok rid t \<Longrightarrow> tbl_ok rid (tbl_delete P t)"
  by (auto simp: tbl_ok_def sorted_wrt_map sorted_wrt_filter)

lemma tbl_ok_update [keeps]:
  assumes "tbl_ok rid t" and "\<And>r. P r \<Longrightarrow> rid (f r) = rid r"
  shows "tbl_ok rid (tbl_update P f t)"
proof -
  have same: "map rid (rows (tbl_update P f t)) = map rid (rows t)"
    using assms(2) by simp
  moreover have "\<forall>r \<in> set (rows (tbl_update P f t)). 1 \<le> rid r \<and> rid r \<le> seq t"
    using assms by (auto simp: tbl_ok_def)
  ultimately show ?thesis using assms(1) by (auto simp: tbl_ok_def simp del: tbl_update_simps(1))
qed

lemma tbl_ok_distinct: "tbl_ok rid t \<Longrightarrow> distinct (map rid (rows t))"
  by (auto simp: tbl_ok_def strict_sorted_iff)

lemma tbl_ok_unique:
  "tbl_ok rid t \<Longrightarrow> r \<in> set (rows t) \<Longrightarrow> s \<in> set (rows t) \<Longrightarrow> rid r = rid s \<Longrightarrow> r = s"
  using tbl_ok_distinct by (metis distinct_map inj_onD)

lemma tbl_ok_find:
  assumes "tbl_ok rid t" and "r \<in> set (rows t)"
  shows "find (\<lambda>s. rid s = rid r) (rows t) = Some r"
proof -
  have "\<exists>s. find (\<lambda>s. rid s = rid r) (rows t) = Some s"
    using assms(2) by (metis (mono_tags, lifting) find_None_iff not_None_eq)
  then obtain s where s: "find (\<lambda>s. rid s = rid r) (rows t) = Some s" ..
  then have "s \<in> set (rows t)" and "rid s = rid r"
    by (auto simp: find_Some_iff)
  with assms s show ?thesis by (metis tbl_ok_unique)
qed

lemma map_tbl_update:
  "(\<And>r. k (f r) = k r) \<Longrightarrow> map k (rows (tbl_update P f t)) = map k (rows t)"
  by simp

lemma list_all_tbl_update:
  "list_all Q (rows t) \<Longrightarrow> (\<And>r. Q r \<Longrightarrow> P r \<Longrightarrow> Q (f r)) \<Longrightarrow> list_all Q (rows (tbl_update P f t))"
  by (auto simp: list_all_iff)

text \<open>\<open>UPDATE .. WHERE id = i\<close> as seen by a later lookup by id.\<close>
lemma find_update_id:
  assumes "\<And>r. rid (f r) = rid r"
  shows "find (\<lambda>r. rid r = j) (rows (tbl_update (\<lambda>r. rid r = i) f t)) =
    (if j = i then map_option f (find (\<lambda>r. rid r = i) (rows t))
     else find (\<lambda>r. rid r = j) (rows t))"
proof -
  have "find (\<lambda>r. rid r = j) (map (\<lambda>r. if rid r = i then f r else r) xs) =
    (if j = i then map_option f (find (\<lambda>r. rid r = i) xs) else find (\<lambda>r. rid r = j) xs)" for xs
    using assms by (induction xs) auto
  then show ?thesis by simp
qed

lemma find_update_where:
  assumes "\<And>r. rid (f r) = rid r"
  shows "find (\<lambda>r. rid r = j) (rows (tbl_update P f t)) =
    map_option (\<lambda>r. if P r then f r else r) (find (\<lambda>r. rid r = j) (rows t))"
  using assms by (simp add: find_map_same)

lemma insort_key_last: "\<forall>y \<in> set ys. k y < k x \<Longrightarrow> insort_key k x ys = ys @ [x]"
  by (induction ys) (auto simp: not_le)

lemma find_append_None: "find P xs = None \<Longrightarrow> find P (xs @ ys) = find P ys"
  by (induction xs) (auto split: if_splits)

lemma sort_key_rev:
  "sorted_wrt (<) (map k xs) \<Longrightarrow> sort_key (\<lambda>r. - k r) xs = rev xs" for k :: "'r \<Rightarrow> int"
  by (induction xs) (auto intro: insort_key_last)

text \<open>In a well-formed table, \<open>ORDER BY id DESC\<close> is the reverse of the row order.\<close>
lemma order_desc_rows:
  "tbl_ok rid t \<Longrightarrow> order_desc rid (filter P (rows t)) = rev (filter P (rows t))"
  by (simp add: order_desc_def tbl_ok_def sort_key_rev sorted_wrt_map sorted_wrt_filter)

lemma set_order_desc [simp]: "set (order_desc k xs) = set xs"
  by (simp add: order_desc_def)

lemma length_order_desc [simp]: "length (order_desc k xs) = length xs"
  by (simp add: order_desc_def)

lemma set_sql_limit: "set (sql_limit n xs) \<subseteq> set xs"
  by (auto simp: sql_limit_def dest: in_set_takeD)

lemma length_sql_limit: "0 \<le> n \<Longrightarrow> length (sql_limit n xs) \<le> nat n"
  by (simp add: sql_limit_def)

text \<open>
  The interface between an \<open>AUTOINCREMENT\<close> table and the operations that insert into it: the row
  an insertion builds carries the id it was given.
\<close>
locale id_table =
  fixes rid :: "'r \<Rightarrow> int" and mk :: "'a \<Rightarrow> int \<Rightarrow> 'r"
  assumes rid_mk [simp]: "rid (mk a i) = i"
begin

lemma insert_ok: "tbl_ok rid t \<Longrightarrow> tbl_ok rid (snd (tbl_insert (mk a) t))"
  by (fastforce simp: tbl_ok_def sorted_wrt_append)

lemma insert_fresh: "tbl_ok rid t \<Longrightarrow> r \<in> set (rows t) \<Longrightarrow> rid r \<noteq> fst (tbl_insert (mk a) t)"
  by (auto simp: tbl_ok_def)

lemma find_inserted:
  assumes "tbl_ok rid t"
  shows "find (\<lambda>r. rid r = seq t + 1) (rows t @ [mk a (seq t + 1)]) = Some (mk a (seq t + 1))"
proof -
  have "find (\<lambda>r. rid r = seq t + 1) (rows t) = None"
    using assms by (fastforce simp: find_None_iff tbl_ok_def)
  then show ?thesis by (simp add: find_append_None)
qed

lemma newest_first:
  assumes "tbl_ok rid t" and "P (mk a (seq t + 1))"
  shows "order_desc rid (filter P (rows t @ [mk a (seq t + 1)])) =
    mk a (seq t + 1) # order_desc rid (filter P (rows t))"
proof -
  have "order_desc rid (filter P (rows (snd (tbl_insert (mk a) t)))) =
      rev (filter P (rows (snd (tbl_insert (mk a) t))))"
    by (rule order_desc_rows) (rule insert_ok [OF assms(1)])
  with assms show ?thesis by (simp add: order_desc_rows)
qed

end

section \<open>Rows and the world\<close>

record reading_row =
  rd_id :: int
  rd_device_id :: string
  rd_register :: int
  rd_value :: f64
  rd_timestamp :: string

record device_row =
  dr_id :: string
  dr_name :: string
  dr_address :: string
  dr_protocol :: string
  dr_poll_rate_ms :: int
  dr_register_start :: int
  dr_register_count :: int
  dr_writable :: string

record alarm_row =
  al_id :: int
  al_device_id :: string
  al_register :: int
  al_label :: string
  al_priority :: int
  al_state :: string
  al_value :: f64
  al_threshold :: f64
  al_message :: string
  al_timestamp :: string
  al_acked_by :: "string option"
  al_acked_at :: "string option"
  al_shelved_until :: "string option"
  al_shelved_by :: "string option"
  al_cleared_at :: "string option"

record batch_row =
  br_id :: int
  br_batch_id :: string
  br_recipe_name :: string
  br_device_id :: string
  br_operator :: string
  br_status :: string
  br_start_time :: string
  br_end_time :: "string option"
  br_notes :: "string option"

record user_row =
  us_id :: string
  us_username :: string
  us_password_hash :: string
  us_role :: string
  us_created_at :: string
  us_is_active :: int

record world =
  plc_readings :: "reading_row table"
  devices_tbl :: "device_row list"
  alarms :: "alarm_row table"
  batch_records :: "batch_row table"
  batch_steps :: "batch_step table"
  users :: "user_row list"
  audit_trail :: "audit_entry table"
  sql_fault :: "nat \<Rightarrow> string option"
  sql_calls :: nat
  wall :: "nat \<Rightarrow> time"
  wall_reads :: nat
  mono :: "nat \<Rightarrow> time"
  mono_reads :: nat
  uuid :: "nat \<Rightarrow> string"
  uuid_reads :: nat
  salt :: "nat \<Rightarrow> string"
  salt_reads :: nat

text \<open>
  One SQL statement sent to the engine: \<open>Some e\<close> when it fails with the error text \<open>e\<close>, and then
  it has changed nothing.
\<close>
definition sql :: "world \<Rightarrow> string option \<times> world" where
  "sql w = (sql_fault w (sql_calls w), w\<lparr>sql_calls := sql_calls w + 1\<rparr>)"

text \<open>\<open>Utc::now()\<close>, \<open>Instant::now()\<close>, \<open>Uuid::new_v4()\<close>, \<open>SaltString::generate\<close>.\<close>
definition utc_now :: "world \<Rightarrow> time \<times> world" where
  "utc_now w = (wall w (wall_reads w), w\<lparr>wall_reads := wall_reads w + 1\<rparr>)"

definition instant_now :: "world \<Rightarrow> time \<times> world" where
  "instant_now w = (mono w (mono_reads w), w\<lparr>mono_reads := mono_reads w + 1\<rparr>)"

definition new_uuid :: "world \<Rightarrow> string \<times> world" where
  "new_uuid w = (uuid w (uuid_reads w), w\<lparr>uuid_reads := uuid_reads w + 1\<rparr>)"

definition new_salt :: "world \<Rightarrow> string \<times> world" where
  "new_salt w = (salt w (salt_reads w), w\<lparr>salt_reads := salt_reads w + 1\<rparr>)"

lemmas env_defs = sql_def utc_now_def instant_now_def new_uuid_def new_salt_def

text \<open>No statement fails any more: the engine is healthy from here on.\<close>
definition healthy :: "world \<Rightarrow> bool" where
  "healthy w \<longleftrightarrow> (\<forall>n. sql_fault w n = None)"

lemma healthy_sql [simp]: "healthy w \<Longrightarrow> sql_fault w n = None"
  by (simp add: healthy_def)

text \<open>What the environment has answered so far does not change what it holds.\<close>
lemma healthy_frame [simp]:
  "healthy (w\<lparr>sql_calls := n\<rparr>) = healthy w"
  "healthy (w\<lparr>wall_reads := n\<rparr>) = healthy w"
  "healthy (w\<lparr>mono_reads := n\<rparr>) = healthy w"
  "healthy (w\<lparr>uuid_reads := n\<rparr>) = healthy w"
  "healthy (w\<lparr>salt_reads := n\<rparr>) = healthy w"
  by (simp_all add: healthy_def)

text \<open>A fresh database in an environment given by its answers.\<close>
definition fresh_world ::
    "(nat \<Rightarrow> string option) \<Rightarrow> (nat \<Rightarrow> time) \<Rightarrow> (nat \<Rightarrow> time) \<Rightarrow> (nat \<Rightarrow> string) \<Rightarrow>
     (nat \<Rightarrow> string) \<Rightarrow> world" where
  "fresh_world f c m u s = \<lparr>plc_readings = empty_table, devices_tbl = [], alarms = empty_table,
     batch_records = empty_table, batch_steps = empty_table, users = [],
     audit_trail = empty_table, sql_fault = f, sql_calls = 0, wall = c, wall_reads = 0,
     mono = m, mono_reads = 0, uuid = u, uuid_reads = 0, salt = s, salt_reads = 0\<rparr>"

text \<open>
  \<open>db::init_db_with_pool\<close>: five \<open>CREATE TABLE IF NOT EXISTS\<close> statements, each of which panics
  (\<open>None\<close>) when the engine fails and otherwise leaves the existing rows alone.
\<close>
fun create_tables :: "nat \<Rightarrow> world \<Rightarrow> world option" where
  "create_tables 0 w = Some w"
| "create_tables (Suc n) w = (case sql w of
     (Some e, w) \<Rightarrow> None
   | (None, w) \<Rightarrow> create_tables n w)"

definition init_db_with_pool :: "world \<Rightarrow> world option" where
  "init_db_with_pool w = create_tables 5 w"

end
