(* ===== verification/Samples.thy ===== *)
theory Samples
  imports World
begin

text \<open>
  One concrete instance of the parameters, on which the witnesses evaluate: third-party functions
  that satisfy the laws, and a fresh database whose engine never fails and whose clocks advance
  by one second at each reading.
\<close>

text \<open>Times as unary texts: their byte order is the order of the times.\<close>
definition sample_rfc3339 :: "time \<Rightarrow> string" where
  "sample_rfc3339 t = replicate (nat t) (CHR ''1'')"

text \<open>Two bytes per 16-bit value.\<close>
definition sample_u16s :: "u16 list \<Rightarrow> string" where
  "sample_u16s ws = concat (map (\<lambda>w. [char_of (unat w div 256), char_of (unat w mod 256)]) ws)"

fun sample_u16s_parse :: "string \<Rightarrow> u16 list option" where
  "sample_u16s_parse (a # b # s) =
     map_option ((#) (of_nat (of_char a * 256 + of_char b))) (sample_u16s_parse s)"
| "sample_u16s_parse [] = Some []"
| "sample_u16s_parse _ = None"

text \<open>A field of a token: its length in unary, a zero, the text.\<close>
definition put_field :: "string \<Rightarrow> string" where
  "put_field s = replicate (length s) (CHR ''1'') @ CHR ''0'' # s"

definition get_field :: "string \<Rightarrow> string \<times> string" where
  "get_field t = (let n = length (takeWhile (\<lambda>c. c = CHR ''1'') t); r = drop (Suc n) t
     in (take n r, drop n r))"

lemma get_put_field [simp]: "get_field (put_field s @ t) = (s, t)"
proof -
  have "takeWhile (\<lambda>c. c = CHR ''1'') (replicate n (CHR ''1'') @ CHR ''0'' # u) =
      replicate n (CHR ''1'')" for n u
    by (induction n) simp_all
  then show ?thesis by (simp add: put_field_def get_field_def Let_def)
qed

definition sample_encode :: "claims \<Rightarrow> string \<Rightarrow> string result" where
  "sample_encode c k = Inr (put_field k @ put_field (cl_sub c) @ put_field (cl_role c) @
     put_field (cl_user_id c) @ put_field (show_nat (nat (cl_exp c))) @
     put_field (show_nat (nat (cl_iat c))) @
     (case cl_session_id c of None \<Rightarrow> '''' | Some s \<Rightarrow> CHR ''s'' # s))"

definition sample_decode :: "string \<Rightarrow> string \<Rightarrow> time \<Rightarrow> claims result" where
  "sample_decode t k now =
     (let (k', t) = get_field t; (sub, t) = get_field t; (role, t) = get_field t;
          (uid, t) = get_field t; (exp, t) = get_field t; (iat, t) = get_field t in
      if k' \<noteq> k then Inl ''InvalidSignature''
      else if int (decimal_value exp) + 60 < timestamp now then Inl ''ExpiredSignature''
      else Inr \<lparr>cl_sub = sub, cl_role = role, cl_user_id = uid, cl_exp = int (decimal_value exp),
        cl_iat = int (decimal_value iat),
        cl_session_id = (case t of [] \<Rightarrow> None | _ # s \<Rightarrow> Some s)\<rparr>)"

definition sample_libs :: libs where
  "sample_libs = \<lparr>to_rfc3339 = sample_rfc3339, parse_rfc3339 = (\<lambda>s. Some (int (length s))),
     parse_utc = (\<lambda>s. Some (int (length s))),
     u16s_to_json = sample_u16s, u16s_from_json = sample_u16s_parse, json_text = (\<lambda>_. ''{}''), json_time = sample_rfc3339,
     parse_socket_addr = (\<lambda>a. CHR '':'' \<in> set a),
     jwt_encode = sample_encode, jwt_decode = sample_decode,
     argon2_hash = (\<lambda>p s. Inr (''$'' @ p)), phc_parses = (\<lambda>h. take 1 h = ''$''),
     argon2_verify = (\<lambda>p h. h = ''$'' @ p),
     is_uppercase = (\<lambda>c. 65 \<le> c \<and> c \<le> 90), is_lowercase = (\<lambda>c. 97 \<le> c \<and> c \<le> 122)\<rparr>"

definition sample_world :: world where
  "sample_world = fresh_world (\<lambda>_. None) (\<lambda>n. int n * 1000000000) (\<lambda>n. int n * 1000000000)
     (\<lambda>n. ''uuid-'' @ show_nat n) (\<lambda>n. ''salt-'' @ show_nat n)"

lemma replicate_less_iff:
  "replicate a c < replicate b c \<longleftrightarrow> a < b" for c :: "'a::order"
proof (induction a arbitrary: b)
  case 0
  then show ?case by (cases b) simp_all
next
  case (Suc a)
  then show ?case by (cases b) simp_all
qed

lemma sample_ordered: "rfc3339_ordered sample_libs"
  by (auto simp: rfc3339_ordered_def sample_libs_def sample_rfc3339_def replicate_less_iff)

lemma sample_parses: "rfc3339_parses sample_libs"
  by (simp add: rfc3339_parses_def sample_libs_def sample_rfc3339_def)

lemma sample_u16s_roundtrip: "sample_u16s_parse (sample_u16s ws) = Some ws"
proof (induction ws)
  case (Cons w ws)
  have "unat w < 2 ^ 16"
    using unsigned_less [of w] by simp
  then have "unat w div 256 < 256"
    by (simp add: less_mult_imp_div_less)
  with Cons show ?case by (simp add: sample_u16s_def del: of_nat_add of_nat_mult)
qed (simp add: sample_u16s_def)

lemma sample_u16s_json: "u16s_json_roundtrip sample_libs"
  by (simp add: u16s_json_roundtrip_def sample_libs_def sample_u16s_roundtrip)

lemma sample_jwt: "jwt_verifies sample_libs"
  by (auto simp: jwt_verifies_def sample_libs_def sample_encode_def sample_decode_def
      split: option.split)

lemma sample_jwt_expires: "jwt_expires sample_libs"
  by (auto simp: jwt_expires_def sample_libs_def sample_decode_def Let_def
      split: prod.splits if_splits)

lemma sample_argon2: "argon2_correct sample_libs"
  by (simp add: argon2_correct_def sample_libs_def)

lemma sample_healthy [simp]: "healthy sample_world"
  by (simp add: healthy_def sample_world_def fresh_world_def)

lemma sample_world_simps [simp]:
  "alarms sample_world = empty_table" "batch_records sample_world = empty_table"
  "batch_steps sample_world = empty_table" "users sample_world = []"
  "audit_trail sample_world = empty_table" "plc_readings sample_world = empty_table"
  "devices_tbl sample_world = []" "wall sample_world = (\<lambda>n. int n * 1000000000)"
  "mono sample_world = (\<lambda>n. int n * 1000000000)" "sql_fault sample_world = (\<lambda>_. None)"
  "wall_reads sample_world = 0" "mono_reads sample_world = 0" "sql_calls sample_world = 0"
  "uuid_reads sample_world = 0" "salt_reads sample_world = 0"
  by (simp_all add: sample_world_def fresh_world_def)

end
