(* ===== verification/Alarms.thy ===== *)
theory Alarms
  imports Samples
begin

text \<open>
  ISA-18.2 alarms, \<open>server/src/db.rs\<close> lines 227 to 281 and 295 to 599: raising, looking up,
  acknowledging, shelving, clearing, un-shelving and listing alarms, each as a function on the
  \<open>alarms\<close> table of the world. The abstract specification is the life cycle \<open>isa_step\<close> of a
  single alarm; \<open>evolves\<close> relates a row before and after an operation, and the development shows
  that every operation takes every row along the life cycle, that well-formedness
  (\<open>alarm_row_ok\<close>) is kept, and that a cleared alarm never changes again.
\<close>

section \<open>Operations\<close>

definition alarm_columns :: "raise_alarm_request \<times> string \<Rightarrow> int \<Rightarrow> alarm_row" where
  "alarm_columns a i = (case a of (req, now) \<Rightarrow>
     \<lparr>al_id = i, al_device_id = ra_device_id req, al_register = uint (ra_register req),
      al_label = ra_label req, al_priority = priority_as_i32 (ra_priority req),
      al_state = ''active'', al_value = ra_value req, al_threshold = ra_threshold req,
      al_message = ra_message req, al_timestamp = now, al_acked_by = None, al_acked_at = None,
      al_shelved_until = None, al_shelved_by = None, al_cleared_at = None\<rparr>)"

interpretation alarm_ids: id_table al_id alarm_columns
  by unfold_locales (simp add: alarm_columns_def split: prod.splits)

definition raise_alarm :: "libs \<Rightarrow> raise_alarm_request \<Rightarrow> world \<Rightarrow> int option \<times> world" where
  "raise_alarm L req w =
     (let (t, w) = utc_now w; now = to_rfc3339 L t; (e, w) = sql w in
      case e of Some _ \<Rightarrow> (None, w)
      | None \<Rightarrow> (let (i, tb) = tbl_insert (alarm_columns (req, now)) (alarms w)
                 in (Some i, w\<lparr>alarms := tb\<rparr>)))"

text \<open>\<open>device_id = ? AND register = ? AND state IN ('active', 'acknowledged')\<close>.\<close>
definition unresolved_on :: "string \<Rightarrow> u16 \<Rightarrow> alarm_row \<Rightarrow> bool" where
  "unresolved_on dev reg r \<longleftrightarrow> al_device_id r = dev \<and> al_register r = uint reg \<and>
     (al_state r = ''active'' \<or> al_state r = ''acknowledged'')"

definition has_active_alarm :: "string \<Rightarrow> u16 \<Rightarrow> world \<Rightarrow> bool \<times> world" where
  "has_active_alarm dev reg w =
     (let (e, w) = sql w;
          n = (case e of Some _ \<Rightarrow> 0
               | None \<Rightarrow> length (filter (unresolved_on dev reg) (rows (alarms w))))
      in (n > 0, w))"

definition get_active_alarm_id :: "string \<Rightarrow> u16 \<Rightarrow> world \<Rightarrow> int option \<times> world" where
  "get_active_alarm_id dev reg w =
     (let (e, w) = sql w in
      (case e of Some _ \<Rightarrow> None
       | None \<Rightarrow> (case sql_limit 1 (order_desc al_id
              (filter (unresolved_on dev reg) (rows (alarms w)))) of
            [] \<Rightarrow> None | r # _ \<Rightarrow> Some (al_id r)), w))"

definition alarm_with_id :: "int \<Rightarrow> world \<Rightarrow> alarm_row option" where
  "alarm_with_id i w = find (\<lambda>r. al_id r = i) (rows (alarms w))"

lemma alarm_with_id_frame [simp]:
  "alarm_with_id i (w\<lparr>sql_calls := n\<rparr>) = alarm_with_id i w"
  "alarm_with_id i (w\<lparr>wall_reads := n\<rparr>) = alarm_with_id i w"
  by (simp_all add: alarm_with_id_def)

text \<open>The text \<open>" \<emdash> Ack comment: "\<close> with its UTF-8 em dash.\<close>
definition ack_comment :: "string option \<Rightarrow> string" where
  "ack_comment c = (case c of None \<Rightarrow> ''''
     | Some c \<Rightarrow> '' '' @ [CHR 0xE2, CHR 0x80, CHR 0x94] @ '' Ack comment: '' @ c)"

definition ack_alarm ::
    "libs \<Rightarrow> int \<Rightarrow> string \<Rightarrow> string option \<Rightarrow> world \<Rightarrow> unit result \<times> world" where
  "ack_alarm L i username comment w =
     (let (t, w) = utc_now w; now = to_rfc3339 L t; (e, w) = sql w in
      case e of Some e \<Rightarrow> (Inl (''DB error: '' @ e), w)
      | None \<Rightarrow>
       (case alarm_with_id i w of
          None \<Rightarrow> (Inl ''Alarm not found'', w)
        | Some r \<Rightarrow>
          if al_state r \<noteq> ''active''
          then (Inl (''Cannot acknowledge alarm in '' @ quoted (al_state r) @ '' state''), w)
          else
           (let (e, w) = sql w in
            case e of Some e \<Rightarrow> (Inl (''Failed to ack alarm: '' @ e), w)
            | None \<Rightarrow> (Inr (), w\<lparr>alarms := tbl_update (\<lambda>r. al_id r = i)
                (\<lambda>r. r\<lparr>al_state := ''acknowledged'', al_acked_by := Some username,
                   al_acked_at := Some now, al_message := al_message r @ ack_comment comment\<rparr>)
                (alarms w)\<rparr>))))"

text \<open>\<open>duration_minutes.min(480)\<close>, as a duration in nanoseconds.\<close>
definition shelve_nanos :: "u32 \<Rightarrow> time" where
  "shelve_nanos mins = uint (min mins 480) * 60 * 1000000000"

definition shelve_alarm ::
    "libs \<Rightarrow> int \<Rightarrow> string \<Rightarrow> u32 \<Rightarrow> string \<Rightarrow> world \<Rightarrow> unit result \<times> world" where
  "shelve_alarm L i username mins reason w =
     (let (t, w) = utc_now w; until = to_rfc3339 L (t + shelve_nanos mins); (e, w) = sql w in
      case e of Some e \<Rightarrow> (Inl (''DB error: '' @ e), w)
      | None \<Rightarrow>
       (case alarm_with_id i w of
          None \<Rightarrow> (Inl ''Alarm not found'', w)
        | Some r \<Rightarrow>
          if al_state r = ''cleared'' then (Inl ''Cannot shelve a cleared alarm'', w)
          else
           (let (e, w) = sql w in
            case e of Some e \<Rightarrow> (Inl (''Failed to shelve alarm: '' @ e), w)
            | None \<Rightarrow> (Inr (), w\<lparr>alarms := tbl_update (\<lambda>r. al_id r = i)
                (\<lambda>r. r\<lparr>al_state := ''shelved'', al_shelved_until := Some until,
                   al_shelved_by := Some username\<rparr>) (alarms w)\<rparr>))))"

definition clear_alarm :: "libs \<Rightarrow> int \<Rightarrow> world \<Rightarrow> unit result \<times> world" where
  "clear_alarm L i w =
     (let (t, w) = utc_now w; now = to_rfc3339 L t; (e, w) = sql w in
      case e of Some e \<Rightarrow> (Inl (''Failed to clear alarm: '' @ e), w)
      | None \<Rightarrow> (Inr (), w\<lparr>alarms :=
          tbl_update (\<lambda>r. al_id r = i \<and> al_state r \<noteq> ''cleared'')
            (\<lambda>r. r\<lparr>al_state := ''cleared'', al_cleared_at := Some now\<rparr>) (alarms w)\<rparr>))"

text \<open>\<open>state = 'shelved' AND shelved_until IS NOT NULL AND shelved_until < ?\<close>.\<close>
definition shelf_expired :: "string \<Rightarrow> alarm_row \<Rightarrow> bool" where
  "shelf_expired now r \<longleftrightarrow> al_state r = ''shelved'' \<and>
     (case al_shelved_until r of None \<Rightarrow> False | Some u \<Rightarrow> u < now)"

definition unshelve_expired :: "libs \<Rightarrow> world \<Rightarrow> world" where
  "unshelve_expired L w =
     (let (t, w) = utc_now w; now = to_rfc3339 L t; (e, w) = sql w in
      case e of Some _ \<Rightarrow> w
      | None \<Rightarrow> w\<lparr>alarms := tbl_update (shelf_expired now)
          (\<lambda>r. r\<lparr>al_state := ''active'', al_shelved_until := None, al_shelved_by := None\<rparr>)
          (alarms w)\<rparr>)"

definition alarm_of_row :: "alarm_row \<Rightarrow> alarm" where
  "alarm_of_row r = \<lparr>a_id = al_id r, a_device_id = al_device_id r,
     a_register = word_of_int (al_register r), a_label = al_label r,
     a_priority = priority_from_i32 (al_priority r), a_state = alarm_state_from_str (al_state r),
     a_value = al_value r, a_threshold = al_threshold r, a_message = al_message r,
     a_timestamp = al_timestamp r, a_acked_by = al_acked_by r, a_acked_at = al_acked_at r,
     a_shelved_until = al_shelved_until r, a_shelved_by = al_shelved_by r,
     a_cleared_at = al_cleared_at r\<rparr>"

text \<open>
  The \<open>WHERE\<close> clause of each branch of the \<open>if\<close>/\<open>else if\<close> chain of \<open>list_alarms\<close>, in its order.
\<close>
definition list_alarms_where :: "alarm_query_params \<Rightarrow> alarm_row \<Rightarrow> bool" where
  "list_alarms_where p r =
     (case (aq_device_id p, aq_state p, aq_priority p) of
        (Some d, Some s, Some q) \<Rightarrow> al_device_id r = d \<and> al_state r = s \<and> al_priority r = q
      | (Some d, Some s, None) \<Rightarrow> al_device_id r = d \<and> al_state r = s
      | (Some d, None, _) \<Rightarrow> al_device_id r = d
      | (None, Some s, _) \<Rightarrow> al_state r = s
      | (None, None, Some q) \<Rightarrow> al_priority r = q
      | (None, None, None) \<Rightarrow> True)"

definition list_alarms :: "alarm_query_params \<Rightarrow> world \<Rightarrow> alarm list \<times> world" where
  "list_alarms p w =
     (let limit = (case aq_limit p of None \<Rightarrow> 200 | Some n \<Rightarrow> n);
          (_, w) = sql w; \<comment> \<open>the dynamically built query, whose rows are dropped\<close>
          (e, w) = sql w;
          found = (case e of Some _ \<Rightarrow> []
            | None \<Rightarrow> sql_limit limit
                (order_desc al_id (filter (list_alarms_where p) (rows (alarms w)))))
      in (map alarm_of_row found, w))"

definition get_alarm :: "int \<Rightarrow> world \<Rightarrow> alarm option \<times> world" where
  "get_alarm i w =
     (let (e, w) = sql w in
      (case e of Some _ \<Rightarrow> None | None \<Rightarrow> map_option alarm_of_row (alarm_with_id i w), w))"

lemmas alarm_op_defs = raise_alarm_def has_active_alarm_def get_active_alarm_id_def
  ack_alarm_def shelve_alarm_def clear_alarm_def unshelve_expired_def list_alarms_def get_alarm_def

text \<open>The alarm operations touch nothing but the alarms and the environment's counters.\<close>
definition only_alarms :: "world \<Rightarrow> world \<Rightarrow> bool" where
  "only_alarms w w' \<longleftrightarrow>
     w' = w\<lparr>alarms := alarms w', sql_calls := sql_calls w', wall_reads := wall_reads w'\<rparr>"

lemma only_alarmsD:
  assumes "only_alarms w w'"
  shows "plc_readings w' = plc_readings w" "devices_tbl w' = devices_tbl w"
    "batch_records w' = batch_records w" "batch_steps w' = batch_steps w" "users w' = users w"
    "audit_trail w' = audit_trail w" "sql_fault w' = sql_fault w" "wall w' = wall w"
    "mono w' = mono w" "mono_reads w' = mono_reads w" "uuid w' = uuid w"
    "uuid_reads w' = uuid_reads w" "salt w' = salt w" "salt_reads w' = salt_reads w"
    "healthy w' = healthy w"
  by (subst assms [unfolded only_alarms_def], simp add: healthy_def)+

lemma only_alarms_ops:
  "only_alarms w (snd (raise_alarm L req w))"
  "only_alarms w (snd (has_active_alarm dev reg w))"
  "only_alarms w (snd (get_active_alarm_id dev reg w))"
  "only_alarms w (snd (ack_alarm L i u c w))"
  "only_alarms w (snd (shelve_alarm L i u m x w))"
  "only_alarms w (snd (clear_alarm L i w))"
  "only_alarms w (unshelve_expired L w)"
  "only_alarms w (snd (list_alarms p w))"
  "only_alarms w (snd (get_alarm i w))"
  by (simp_all add: alarm_op_defs only_alarms_def env_defs Let_def tbl_insert_def
      split: option.split)

lemmas alarm_frame [simp] = only_alarms_ops [THEN only_alarmsD(1)]
  only_alarms_ops [THEN only_alarmsD(2)] only_alarms_ops [THEN only_alarmsD(3)]
  only_alarms_ops [THEN only_alarmsD(4)] only_alarms_ops [THEN only_alarmsD(5)]
  only_alarms_ops [THEN only_alarmsD(6)] only_alarms_ops [THEN only_alarmsD(7)]
  only_alarms_ops [THEN only_alarmsD(8)] only_alarms_ops [THEN only_alarmsD(9)]
  only_alarms_ops [THEN only_alarmsD(10)] only_alarms_ops [THEN only_alarmsD(11)]
  only_alarms_ops [THEN only_alarmsD(12)] only_alarms_ops [THEN only_alarmsD(13)]
  only_alarms_ops [THEN only_alarmsD(14)] only_alarms_ops [THEN only_alarmsD(15)]

text \<open>The queries leave the alarms too.\<close>
lemma alarm_query_table [simp]:
  "alarms (snd (has_active_alarm dev reg w)) = alarms w"
  "alarms (snd (get_active_alarm_id dev reg w)) = alarms w"
  "alarms (snd (list_alarms p w)) = alarms w"
  "alarms (snd (get_alarm i w)) = alarms w"
  by (simp_all add: alarm_op_defs env_defs Let_def)

section \<open>The life cycle\<close>

text \<open>What may happen to one alarm, and the operations as data.\<close>

inductive isa_step :: "AlarmState \<Rightarrow> AlarmState \<Rightarrow> bool" where
  ack: "isa_step Active Acknowledged"
| shelve: "s \<noteq> Cleared \<Longrightarrow> isa_step s Shelved"
| clear: "s \<noteq> Cleared \<Longrightarrow> isa_step s Cleared"
| unshelve: "isa_step Shelved Active"

code_pred isa_step .

inductive_cases from_cleared: "isa_step Cleared s"
inductive_simps isa_step_iff: "isa_step s t"

datatype alarm_op =
    Raise raise_alarm_request
  | Ack int string "string option"
  | Shelve int string u32 string
  | Clear int
  | Unshelve

fun run_alarm_op :: "libs \<Rightarrow> alarm_op \<Rightarrow> world \<Rightarrow> world" where
  "run_alarm_op L (Raise req) w = snd (raise_alarm L req w)"
| "run_alarm_op L (Ack i u c) w = snd (ack_alarm L i u c w)"
| "run_alarm_op L (Shelve i u m x) w = snd (shelve_alarm L i u m x w)"
| "run_alarm_op L (Clear i) w = snd (clear_alarm L i w)"
| "run_alarm_op L Unshelve w = unshelve_expired L w"

definition run_alarm_ops :: "libs \<Rightarrow> alarm_op list \<Rightarrow> world \<Rightarrow> world" where
  "run_alarm_ops L ops w = fold (run_alarm_op L) ops w"

text \<open>A row and the same row later: its identity is fixed, its state moved along the cycle.\<close>
definition same_origin :: "alarm_row \<Rightarrow> alarm_row \<Rightarrow> bool" where
  "same_origin r r' \<longleftrightarrow> al_id r' = al_id r \<and> al_device_id r' = al_device_id r \<and>
     al_register r' = al_register r \<and> al_label r' = al_label r \<and>
     al_priority r' = al_priority r \<and> al_value r' = al_value r \<and>
     al_threshold r' = al_threshold r \<and> al_timestamp r' = al_timestamp r \<and>
     prefix (al_message r) (al_message r')"

definition row_state :: "alarm_row \<Rightarrow> AlarmState" where
  "row_state r = alarm_state_from_str (al_state r)"

definition evolves :: "alarm_row \<Rightarrow> alarm_row \<Rightarrow> bool" where
  "evolves r r' \<longleftrightarrow> r' = r \<or> same_origin r r' \<and> isa_step (row_state r) (row_state r')"

text \<open>The rows with one of the four state texts and the fields that go with the state.\<close>
definition alarm_row_ok :: "alarm_row \<Rightarrow> bool" where
  "alarm_row_ok r \<longleftrightarrow> al_state r = alarm_state_as_str (row_state r) \<and>
     1 \<le> al_priority r \<and> al_priority r \<le> 5 \<and> 0 \<le> al_register r \<and> al_register r < 65536 \<and>
     (row_state r = Acknowledged \<longrightarrow> al_acked_by r \<noteq> None \<and> al_acked_at r \<noteq> None) \<and>
     (row_state r = Shelved \<longrightarrow> al_shelved_until r \<noteq> None \<and> al_shelved_by r \<noteq> None) \<and>
     (row_state r = Active \<or> row_state r = Acknowledged \<longrightarrow>
        al_shelved_until r = None \<and> al_shelved_by r = None) \<and>
     (row_state r = Cleared \<longleftrightarrow> al_cleared_at r \<noteq> None)"

definition alarms_ok :: "world \<Rightarrow> bool" where
  "alarms_ok w \<longleftrightarrow> tbl_ok al_id (alarms w) \<and> list_all alarm_row_ok (rows (alarms w))"


section \<open>What each operation does to the table\<close>

lemma row_state_texts:
  "al_state r = ''active'' \<Longrightarrow> row_state r = Active"
  "al_state r = ''acknowledged'' \<Longrightarrow> row_state r = Acknowledged"
  "al_state r = ''cleared'' \<Longrightarrow> row_state r = Cleared"
  "al_state r = ''shelved'' \<Longrightarrow> row_state r = Shelved"
  by (simp_all add: row_state_def alarm_state_from_str_def)

lemma row_state_cleared_iff: "row_state r = Cleared \<longleftrightarrow> al_state r = ''cleared''"
  by (simp add: row_state_def alarm_state_from_str_def)

lemma al_state_iff:
  assumes "alarm_row_ok r"
  shows "al_state r = alarm_state_as_str s \<longleftrightarrow> row_state r = s"
  using assms unfolding alarm_row_ok_def row_state_def by (metis alarm_state_roundtrip)

lemma alarm_columns_simps [simp]:
  "al_id (alarm_columns a i) = i"
  "al_device_id (alarm_columns a i) = ra_device_id (fst a)"
  "al_register (alarm_columns a i) = uint (ra_register (fst a))"
  "al_state (alarm_columns a i) = ''active''"
  "al_priority (alarm_columns a i) = priority_as_i32 (ra_priority (fst a))"
  by (simp_all add: alarm_columns_def split: prod.splits)

lemma alarm_columns_ok: "alarm_row_ok (alarm_columns a i)"
proof -
  have "uint (ra_register (fst a)) < 65536"
    using uint_bounded [of "ra_register (fst a)"] by simp
  then show ?thesis
    by (cases "ra_priority (fst a)")
      (auto simp: alarm_row_ok_def alarm_columns_def row_state_def alarm_state_from_str_def
         split: prod.splits)
qed

text \<open>The table after each operation, as an equation.\<close>

abbreviation now_text :: "libs \<Rightarrow> world \<Rightarrow> string" where
  "now_text L w \<equiv> to_rfc3339 L (wall w (wall_reads w))"

lemma raise_alarm_table:
  "alarms (snd (raise_alarm L req w)) =
     (if sql_fault w (sql_calls w) = None
      then snd (tbl_insert (alarm_columns (req, now_text L w)) (alarms w)) else alarms w)"
  by (simp add: raise_alarm_def env_defs Let_def tbl_insert_def split: option.split)

lemma ack_alarm_table:
  "alarms (snd (ack_alarm L i u c w)) =
     (if is_ok (fst (ack_alarm L i u c w))
      then tbl_update (\<lambda>r. al_id r = i)
        (\<lambda>r. r\<lparr>al_state := ''acknowledged'', al_acked_by := Some u,
           al_acked_at := Some (now_text L w), al_message := al_message r @ ack_comment c\<rparr>)
        (alarms w)
      else alarms w)"
  by (simp add: ack_alarm_def env_defs Let_def split: option.split)

lemma ack_alarm_ok_iff:
  "is_ok (fst (ack_alarm L i u c w)) \<longleftrightarrow>
     sql_fault w (sql_calls w) = None \<and> sql_fault w (sql_calls w + 1) = None \<and>
     (\<exists>r. alarm_with_id i w = Some r \<and> al_state r = ''active'')"
  by (simp add: ack_alarm_def env_defs Let_def split: option.split)

lemma ack_alarm_result:
  "fst (ack_alarm L i u c w) =
     (case sql_fault w (sql_calls w) of Some e \<Rightarrow> Inl (''DB error: '' @ e)
      | None \<Rightarrow> (case alarm_with_id i w of None \<Rightarrow> Inl ''Alarm not found''
        | Some r \<Rightarrow>
          if al_state r \<noteq> ''active''
          then Inl (''Cannot acknowledge alarm in '' @ quoted (al_state r) @ '' state'')
          else (case sql_fault w (sql_calls w + 1) of
              Some e \<Rightarrow> Inl (''Failed to ack alarm: '' @ e) | None \<Rightarrow> Inr ())))"
  by (simp add: ack_alarm_def env_defs Let_def split: option.split)

lemma shelve_alarm_table:
  "alarms (snd (shelve_alarm L i u m x w)) =
     (if is_ok (fst (shelve_alarm L i u m x w))
      then tbl_update (\<lambda>r. al_id r = i)
        (\<lambda>r. r\<lparr>al_state := ''shelved'',
           al_shelved_until := Some (to_rfc3339 L (wall w (wall_reads w) + shelve_nanos m)),
           al_shelved_by := Some u\<rparr>) (alarms w)
      else alarms w)"
  by (simp add: shelve_alarm_def env_defs Let_def split: option.split)

lemma shelve_alarm_ok_iff:
  "is_ok (fst (shelve_alarm L i u m x w)) \<longleftrightarrow>
     sql_fault w (sql_calls w) = None \<and> sql_fault w (sql_calls w + 1) = None \<and>
     (\<exists>r. alarm_with_id i w = Some r \<and> al_state r \<noteq> ''cleared'')"
  by (simp add: shelve_alarm_def env_defs Let_def split: option.split)

lemma clear_alarm_table:
  "alarms (snd (clear_alarm L i w)) =
     (if sql_fault w (sql_calls w) = None
      then tbl_update (\<lambda>r. al_id r = i \<and> al_state r \<noteq> ''cleared'')
        (\<lambda>r. r\<lparr>al_state := ''cleared'', al_cleared_at := Some (now_text L w)\<rparr>) (alarms w)
      else alarms w)"
  by (simp add: clear_alarm_def env_defs Let_def split: option.split)

lemma unshelve_expired_table:
  "alarms (unshelve_expired L w) =
     (if sql_fault w (sql_calls w) = None
      then tbl_update (shelf_expired (now_text L w))
        (\<lambda>r. r\<lparr>al_state := ''active'', al_shelved_until := None, al_shelved_by := None\<rparr>)
        (alarms w)
      else alarms w)"
  by (simp add: unshelve_expired_def env_defs Let_def split: option.split)

lemmas alarm_tables = raise_alarm_table ack_alarm_table shelve_alarm_table clear_alarm_table
  unshelve_expired_table

text \<open>Two rows of one table with the same id are the same row.\<close>
lemma alarm_with_id_unique:
  "tbl_ok al_id (alarms w) \<Longrightarrow> alarm_with_id i w = Some r \<Longrightarrow>
   q \<in> set (rows (alarms w)) \<Longrightarrow> al_id q = i \<Longrightarrow> q = r"
  by (auto simp: alarm_with_id_def dest: tbl_ok_find)

lemmas row_defs = same_origin_def row_state_def alarm_state_from_str_def alarm_row_ok_def

text \<open>
  Every operation leaves the table alone, inserts one row, or updates rows along the life cycle.
\<close>
lemma alarm_op_effect:
  assumes ok: "tbl_ok al_id (alarms w)"
  obtains (same) "alarms (run_alarm_op L x w) = alarms w"
  | (insert) req now where "x = Raise req"
      "alarms (run_alarm_op L x w) = snd (tbl_insert (alarm_columns (req, now)) (alarms w))"
  | (update) P f where "alarms (run_alarm_op L x w) = tbl_update P f (alarms w)"
      "\<And>r. r \<in> set (rows (alarms w)) \<Longrightarrow> P r \<Longrightarrow>
         same_origin r (f r) \<and> isa_step (row_state r) (row_state (f r)) \<and>
         (alarm_row_ok r \<longrightarrow> alarm_row_ok (f r))"
proof (cases x)
  case (Raise req)
  then show ?thesis
    using same insert by (cases "sql_fault w (sql_calls w)") (simp_all add: raise_alarm_table)
next
  case (Ack i u c)
  show ?thesis
  proof (cases "is_ok (fst (ack_alarm L i u c w))")
    case True
    then obtain r where r: "alarm_with_id i w = Some r" "al_state r = ''active''"
      by (auto simp: ack_alarm_ok_iff)
    show ?thesis
    proof (rule update)
      show "alarms (run_alarm_op L x w) = tbl_update (\<lambda>r. al_id r = i)
         (\<lambda>r. r\<lparr>al_state := ''acknowledged'', al_acked_by := Some u,
            al_acked_at := Some (now_text L w), al_message := al_message r @ ack_comment c\<rparr>)
         (alarms w)"
        using Ack True by (simp add: ack_alarm_table)
    qed (use alarm_with_id_unique [OF ok r(1)] r(2) in \<open>auto simp: row_defs isa_step.ack\<close>)
  qed (use Ack same in \<open>simp add: ack_alarm_table\<close>)
next
  case (Shelve i u m y)
  show ?thesis
  proof (cases "is_ok (fst (shelve_alarm L i u m y w))")
    case True
    then obtain r where r: "alarm_with_id i w = Some r" "al_state r \<noteq> ''cleared''"
      by (auto simp: shelve_alarm_ok_iff)
    show ?thesis
    proof (rule update)
      show "alarms (run_alarm_op L x w) = tbl_update (\<lambda>r. al_id r = i)
         (\<lambda>r. r\<lparr>al_state := ''shelved'',
            al_shelved_until := Some (to_rfc3339 L (wall w (wall_reads w) + shelve_nanos m)),
            al_shelved_by := Some u\<rparr>) (alarms w)"
        using Shelve True by (simp add: shelve_alarm_table)
    qed (use alarm_with_id_unique [OF ok r(1)] r(2)
         in \<open>auto simp: row_defs intro!: isa_step.shelve\<close>)
  qed (use Shelve same in \<open>simp add: shelve_alarm_table\<close>)
next
  case (Clear i)
  show ?thesis
  proof (cases "sql_fault w (sql_calls w) = None")
    case True
    show ?thesis
    proof (rule update)
      show "alarms (run_alarm_op L x w) = tbl_update (\<lambda>r. al_id r = i \<and> al_state r \<noteq> ''cleared'')
         (\<lambda>r. r\<lparr>al_state := ''cleared'', al_cleared_at := Some (now_text L w)\<rparr>) (alarms w)"
        using Clear True by (simp add: clear_alarm_table)
    qed (auto simp: row_defs intro!: isa_step.clear)
  qed (rule same, use Clear in \<open>auto simp: clear_alarm_table\<close>)
next
  case Unshelve
  show ?thesis
  proof (cases "sql_fault w (sql_calls w) = None")
    case True
    show ?thesis
    proof (rule update)
      show "alarms (run_alarm_op L x w) = tbl_update (shelf_expired (now_text L w))
         (\<lambda>r. r\<lparr>al_state := ''active'', al_shelved_until := None, al_shelved_by := None\<rparr>)
         (alarms w)"
        using Unshelve True by (simp add: unshelve_expired_table)
    qed (auto simp: row_defs shelf_expired_def isa_step.unshelve)
  qed (rule same, use Unshelve in \<open>auto simp: unshelve_expired_table\<close>)
qed

lemma alarm_op_evolves:
  assumes "tbl_ok al_id (alarms w)"
  shows "list_all2 evolves (rows (alarms w))
      (take (length (rows (alarms w))) (rows (alarms (run_alarm_op L x w)))) \<and>
    (\<forall>r \<in> set (drop (length (rows (alarms w))) (rows (alarms (run_alarm_op L x w)))).
      \<exists>req now i. x = Raise req \<and> r = alarm_columns (req, now) i)"
  using assms
proof (cases rule: alarm_op_effect [of w L x])
  case same
  then show ?thesis by (simp add: list.rel_refl evolves_def)
next
  case (insert req now)
  then show ?thesis by (auto simp: list.rel_refl evolves_def)
next
  case (update P f)
  have "list_all2 evolves (rows (alarms w)) (map (\<lambda>r. if P r then f r else r) (rows (alarms w)))"
    by (rule list_all2_map_left) (use update(2) in \<open>auto simp: evolves_def\<close>)
  with update(1) show ?thesis by simp
qed

lemma alarm_op_ids_ok:
  assumes "tbl_ok al_id (alarms w)"
  shows "tbl_ok al_id (alarms (run_alarm_op L x w))"
  using assms
proof (cases rule: alarm_op_effect [of w L x])
  case (insert req now)
  then show ?thesis by (simp only: alarm_ids.insert_ok [OF assms])
next
  case (update P f)
  have "tbl_ok al_id (tbl_update (\<lambda>r. P r \<and> r \<in> set (rows (alarms w))) f (alarms w))"
    by (rule tbl_ok_update [OF assms]) (use update(2) in \<open>auto simp: same_origin_def\<close>)
  moreover have "tbl_update (\<lambda>r. P r \<and> r \<in> set (rows (alarms w))) f (alarms w) =
      tbl_update P f (alarms w)"
    by (simp add: tbl_update_def)
  ultimately show ?thesis using update(1) by simp
qed (use assms in simp)

lemma alarm_op_ok [keeps]:
  assumes "alarms_ok w"
  shows "alarms_ok (run_alarm_op L x w)"
proof -
  have ids: "tbl_ok al_id (alarms w)" and rows: "list_all alarm_row_ok (rows (alarms w))"
    using assms by (auto simp: alarms_ok_def)
  have "list_all alarm_row_ok (rows (alarms (run_alarm_op L x w)))"
    using ids
  proof (cases rule: alarm_op_effect [of w L x])
    case (update P f)
    then show ?thesis using rows by (auto simp: list_all_iff)
  qed (use rows in \<open>auto simp: alarm_columns_ok\<close>)
  with ids show ?thesis by (simp add: alarms_ok_def alarm_op_ids_ok)
qed
section \<open>Histories\<close>

text \<open>What a run of operations may have made of a row.\<close>
definition alarm_path :: "alarm_row \<Rightarrow> alarm_row \<Rightarrow> bool" where
  "alarm_path r r' \<longleftrightarrow> same_origin r r' \<and> isa_step\<^sup>*\<^sup>* (row_state r) (row_state r') \<and>
     (row_state r = Cleared \<longrightarrow> r' = r)"

lemma alarm_path_refl: "alarm_path r r"
  by (simp add: alarm_path_def same_origin_def)

lemma same_origin_trans: "same_origin a b \<Longrightarrow> same_origin b c \<Longrightarrow> same_origin a c"
  by (auto simp: same_origin_def intro: prefix_order.trans)

lemma evolves_alarm_path: "evolves r r' \<Longrightarrow> alarm_path r r'"
  by (auto simp: evolves_def alarm_path_def same_origin_def elim: from_cleared)

lemma alarm_path_trans: "alarm_path a b \<Longrightarrow> alarm_path b c \<Longrightarrow> alarm_path a c"
  by (auto simp: alarm_path_def intro: same_origin_trans rtranclp_trans)

lemma run_alarm_ops_ok: "alarms_ok w \<Longrightarrow> alarms_ok (run_alarm_ops L ops w)"
  by (induction ops arbitrary: w) (simp_all add: run_alarm_ops_def keeps)

lemma run_alarm_op_path:
  assumes "alarms_ok w" and "r \<in> set (rows (alarms w))"
  shows "\<exists>r' \<in> set (rows (alarms (run_alarm_op L x w))). alarm_path r r'"
proof -
  have "list_all2 evolves (rows (alarms w))
      (take (length (rows (alarms w))) (rows (alarms (run_alarm_op L x w))))"
    using assms(1) by (simp add: alarms_ok_def alarm_op_evolves)
  from list_all2_set1 [OF this assms(2)] show ?thesis
    by (meson evolves_alarm_path in_set_takeD)
qed

text \<open>
  No operation loses or rewrites alarm history. After any sequence of raise, acknowledge, shelve,
  clear and un-shelve operations, whichever statements fail, every alarm is still in the table with
  its identity fields unchanged and its message at most extended, its state is reachable along the
  ISA-18.2 life cycle, and a cleared alarm is exactly as it was.
\<close>
theorem alarm_history_kept:
  assumes "alarms_ok w" and "r \<in> set (rows (alarms w))"
  shows "\<exists>r' \<in> set (rows (alarms (run_alarm_ops L ops w))). alarm_path r r'"
  using assms
proof (induction ops arbitrary: w r)
  case Nil
  then show ?case using alarm_path_refl by (auto simp: run_alarm_ops_def)
next
  case (Cons x ops)
  from run_alarm_op_path [OF Cons.prems]
  obtain q where q: "q \<in> set (rows (alarms (run_alarm_op L x w)))" "alarm_path r q" ..
  from Cons.IH [OF alarm_op_ok [OF Cons.prems(1)] q(1)] q(2) show ?case
    by (auto simp: run_alarm_ops_def intro: alarm_path_trans)
qed

text \<open>A table with one alarm, for the witnesses.\<close>
definition sample_alarm :: raise_alarm_request where
  "sample_alarm = \<lparr>ra_device_id = ''plc-01'', ra_register = 1028, ra_label = ''Temperature'',
     ra_priority = Critical, ra_value = 105, ra_threshold = 100, ra_message = ''hot''\<rparr>"

definition sample_alarm_world :: world where
  "sample_alarm_world = snd (raise_alarm sample_libs sample_alarm sample_world)"

definition sample_row :: alarm_row where
  "sample_row = alarm_columns (sample_alarm, now_text sample_libs sample_world) 1"

lemma sample_alarm_table:
  "rows (alarms sample_alarm_world) = [sample_row]"
  "seq (alarms sample_alarm_world) = 1"
  by (simp_all add: sample_alarm_world_def sample_row_def raise_alarm_table)
     (simp_all add: empty_table_def)

lemma sample_alarm_env [simp]:
  "healthy sample_alarm_world"
  "wall sample_alarm_world = (\<lambda>n. int n * 1000000000)"
  by (simp_all add: sample_alarm_world_def)

lemma sample_alarm_world_ok: "alarms_ok sample_alarm_world"
  by (simp add: alarms_ok_def tbl_ok_def sample_alarm_table) (simp add: sample_row_def alarm_columns_ok)

lemma sample_alarm_find: "alarm_with_id 1 sample_alarm_world = Some sample_row"
  by (simp add: alarm_with_id_def sample_alarm_table) (simp add: sample_row_def)

lemma sample_row_state: "al_state sample_row = ''active''" "row_state sample_row = Active"
  by (simp_all add: sample_row_def row_state_texts)

theorem alarm_history_kept_witness:
  "alarms_ok sample_alarm_world \<and> sample_row \<in> set (rows (alarms sample_alarm_world)) \<and>
   (\<exists>r' \<in> set (rows (alarms (run_alarm_ops sample_libs [Ack 1 ''op'' None, Clear 1]
      sample_alarm_world))). alarm_path sample_row r')"
proof -
  have mem: "sample_row \<in> set (rows (alarms sample_alarm_world))"
    by (simp add: sample_alarm_table)
  show ?thesis
    using mem sample_alarm_world_ok alarm_history_kept [OF sample_alarm_world_ok mem] by blast
qed

section \<open>What each operation returns\<close>

lemma shelve_nanos_max: "0 \<le> shelve_nanos m" "shelve_nanos m \<le> 8 * 3600 * 1000000000"
proof -
  have "uint (min m 480) \<le> 480"
    using word_le_def [of "min m 480" 480] by simp
  then show "shelve_nanos m \<le> 8 * 3600 * 1000000000" by (simp add: shelve_nanos_def)
qed (simp add: shelve_nanos_def)

lemma alarm_with_id_id: "alarm_with_id i w = Some r \<Longrightarrow> al_id r = i"
  by (auto simp: alarm_with_id_def find_Some_iff)






text \<open>
  A raised alarm reads back as raised. Raising returns a new id, reading that id gives the
  request's device, register, label, priority, value, threshold and message in state active with the
  time of the raise, and the device and register now have an unresolved alarm, whose id is that one.
\<close>
theorem raise_then_get:
  assumes "healthy w" and "tbl_ok al_id (alarms w)"
  shows "\<exists>i w'. raise_alarm L req w = (Some i, w') \<and>
    fst (get_alarm i w') = Some \<lparr>a_id = i, a_device_id = ra_device_id req,
      a_register = ra_register req, a_label = ra_label req, a_priority = ra_priority req,
      a_state = Active, a_value = ra_value req, a_threshold = ra_threshold req,
      a_message = ra_message req, a_timestamp = now_text L w, a_acked_by = None,
      a_acked_at = None, a_shelved_until = None, a_shelved_by = None, a_cleared_at = None\<rparr> \<and>
    fst (has_active_alarm (ra_device_id req) (ra_register req) w') \<and>
    fst (get_active_alarm_id (ra_device_id req) (ra_register req) w') = Some i"
proof -
  let ?w = "snd (raise_alarm L req w)"
  let ?row = "alarm_columns (req, now_text L w) (seq (alarms w) + 1)"
  have i: "fst (raise_alarm L req w) = Some (seq (alarms w) + 1)"
    using assms(1) by (simp add: raise_alarm_def env_defs Let_def tbl_insert_def)
  have rows: "rows (alarms ?w) = rows (alarms w) @ [?row]"
    using assms(1) by (simp add: raise_alarm_table)
  have un: "unresolved_on (ra_device_id req) (ra_register req) ?row"
    by (simp add: unresolved_on_def)
  have newest: "order_desc al_id (filter (unresolved_on (ra_device_id req) (ra_register req))
      (rows (alarms ?w))) = ?row # order_desc al_id (filter
        (unresolved_on (ra_device_id req) (ra_register req)) (rows (alarms w)))"
    using alarm_ids.newest_first [where P = "unresolved_on (ra_device_id req) (ra_register req)",
        OF assms(2) un] by (simp only: rows)
  have "alarm_with_id (seq (alarms w) + 1) ?w = Some ?row"
    using alarm_ids.find_inserted [OF assms(2)] by (simp add: alarm_with_id_def rows)
  then have "fst (get_alarm (seq (alarms w) + 1) ?w) = Some (alarm_of_row ?row)"
    using assms(1) by (simp add: get_alarm_def env_defs Let_def)
  moreover have "fst (has_active_alarm (ra_device_id req) (ra_register req) ?w)"
    using assms(1) un by (simp add: has_active_alarm_def env_defs Let_def rows)
  moreover have "fst (get_active_alarm_id (ra_device_id req) (ra_register req) ?w) =
      Some (seq (alarms w) + 1)"
    using assms(1) newest by (simp add: get_active_alarm_id_def env_defs Let_def sql_limit_def)
  ultimately show ?thesis
    using i by (cases "raise_alarm L req w")
      (auto simp: alarm_of_row_def alarm_columns_def alarm_state_from_str_def)
qed

theorem raise_then_get_witness:
  "\<exists>i w'. raise_alarm sample_libs sample_alarm sample_world = (Some i, w') \<and>
     fst (has_active_alarm ''plc-01'' 1028 w')"
proof -
  have "tbl_ok al_id (alarms sample_world)" by simp
  from raise_then_get [OF sample_healthy this, where L = sample_libs and req = sample_alarm]
  show ?thesis by (auto simp: sample_alarm_def)
qed

text \<open>The conjunction of the filters a caller gives.\<close>
definition asked_for :: "alarm_query_params \<Rightarrow> alarm_row \<Rightarrow> bool" where
  "asked_for p r \<longleftrightarrow> (\<forall>d. aq_device_id p = Some d \<longrightarrow> al_device_id r = d) \<and>
     (\<forall>s. aq_state p = Some s \<longrightarrow> al_state r = s) \<and>
     (\<forall>q. aq_priority p = Some q \<longrightarrow> al_priority r = q)"

text \<open>
  C36: listing alarms is exact where the filters are honoured: newest first, at most the limit (200
  when none is given, all when it is negative), exactly the rows that satisfy every given filter. The
  hypothesis leaves out the two filter combinations that the next property is about.
\<close>
theorem list_alarms_exact:
  assumes "healthy w" and "tbl_ok al_id (alarms w)"
    and "aq_priority p = None \<or> (aq_device_id p = None \<longleftrightarrow> aq_state p = None)"
  shows "fst (list_alarms p w) = map alarm_of_row
    (sql_limit (case aq_limit p of None \<Rightarrow> 200 | Some n \<Rightarrow> n)
      (rev (filter (asked_for p) (rows (alarms w)))))"
proof -
  have "list_alarms_where p = asked_for p"
    using assms(3) by (auto simp: list_alarms_where_def asked_for_def fun_eq_iff split: option.split)
  then show ?thesis
    using assms(1,2) by (simp add: list_alarms_def env_defs Let_def order_desc_rows)
qed

theorem list_alarms_exact_witness:
  "fst (list_alarms \<lparr>aq_device_id = Some ''plc-01'', aq_state = None, aq_priority = None,
     aq_limit = None\<rparr> sample_alarm_world) = [alarm_of_row sample_row]"
proof -
  have "tbl_ok al_id (alarms sample_alarm_world)"
    using sample_alarm_world_ok by (simp add: alarms_ok_def)
  from list_alarms_exact [OF sample_alarm_env(1) this, where p = "\<lparr>aq_device_id = Some ''plc-01'',
     aq_state = None, aq_priority = None, aq_limit = None\<rparr>"]
  show ?thesis
    by (simp add: sample_alarm_table sql_limit_def asked_for_def)
       (simp add: sample_row_def sample_alarm_def)
qed

text \<open>
  When exactly one of device and state is given, the priority filter of the request is ignored:
  the answer is the one to the request without it.
\<close>
theorem list_alarms_drops_priority:
  assumes "aq_device_id p \<noteq> None \<longleftrightarrow> aq_state p = None"
  shows "list_alarms p w = list_alarms (p\<lparr>aq_priority := None\<rparr>) w"
proof -
  have "list_alarms_where p = list_alarms_where (p\<lparr>aq_priority := None\<rparr>)"
    using assms by (auto simp: list_alarms_where_def fun_eq_iff split: option.split)
  then show ?thesis by (simp add: list_alarms_def env_defs Let_def split: option.split)
qed

theorem list_alarms_drops_priority_witness:
  "list_alarms \<lparr>aq_device_id = Some ''plc-01'', aq_state = None, aq_priority = Some 5,
     aq_limit = None\<rparr> sample_alarm_world =
   list_alarms \<lparr>aq_device_id = Some ''plc-01'', aq_state = None, aq_priority = None,
     aq_limit = None\<rparr> sample_alarm_world"
  using list_alarms_drops_priority [where p = "\<lparr>aq_device_id = Some ''plc-01'',
     aq_state = None, aq_priority = Some 5, aq_limit = None\<rparr>" and w = sample_alarm_world] by simp

end
