(* ===== verification/Batches.thy ===== *)
theory Batches
  imports Samples
begin

text \<open>
  ISA-88 batch records, \<open>server/src/db.rs\<close> lines 283 to 293 and 601 to 818: creating a batch,
  changing its status, adding and completing steps, and the queries. The column \<open>batch_id\<close> is
  \<open>UNIQUE\<close>, so a second insertion of an id fails; \<open>batch_steps.batch_record_id\<close> references
  \<open>batch_records(id)\<close>, which the SQLite connections of sqlx enforce. \<open>batches_ok\<close> is the
  invariant of the two tables.
\<close>

section \<open>Operations\<close>

definition batch_columns :: "string \<times> string \<times> string \<times> string \<times> string \<Rightarrow> int \<Rightarrow> batch_row" where
  "batch_columns a i = (case a of (batch_id, recipe_name, device_id, operator, now) \<Rightarrow>
     \<lparr>br_id = i, br_batch_id = batch_id, br_recipe_name = recipe_name, br_device_id = device_id,
      br_operator = operator, br_status = ''running'', br_start_time = now, br_end_time = None,
      br_notes = None\<rparr>)"

definition step_columns :: "int \<times> int \<times> string \<times> string option \<times> string \<Rightarrow> int \<Rightarrow> batch_step" where
  "step_columns a i = (case a of (batch_record_id, step_number, name, parameters, now) \<Rightarrow>
     \<lparr>bs_id = i, bs_batch_record_id = batch_record_id, bs_step_number = step_number,
      bs_name = name, bs_status = ''running'', bs_start_time = now, bs_end_time = None,
      bs_parameters = parameters, bs_result = None\<rparr>)"

interpretation batch_ids: id_table br_id batch_columns
  by unfold_locales (simp add: batch_columns_def split: prod.splits)

interpretation step_ids: id_table bs_id step_columns
  by unfold_locales (simp add: step_columns_def split: prod.splits)

definition running_on :: "string \<Rightarrow> batch_row \<Rightarrow> bool" where
  "running_on dev r \<longleftrightarrow> br_device_id r = dev \<and> br_status r = ''running''"

definition get_running_batch :: "string \<Rightarrow> world \<Rightarrow> (int \<times> string) option \<times> world" where
  "get_running_batch dev w =
     (let (e, w) = sql w in
      (case e of Some _ \<Rightarrow> None
       | None \<Rightarrow> (case sql_limit 1 (order_desc br_id
             (filter (running_on dev) (rows (batch_records w)))) of
            [] \<Rightarrow> None | r # _ \<Rightarrow> Some (br_id r, br_batch_id r)), w))"

definition create_batch ::
    "libs \<Rightarrow> string \<Rightarrow> string \<Rightarrow> string \<Rightarrow> string \<Rightarrow> world \<Rightarrow> int option \<times> world" where
  "create_batch L batch_id recipe_name device_id operator w =
     (let (t, w) = utc_now w; now = to_rfc3339 L t; (e, w) = sql w in
      case e of Some _ \<Rightarrow> (None, w)
      | None \<Rightarrow>
        if \<exists>r \<in> set (rows (batch_records w)). br_batch_id r = batch_id then (None, w)
        else (let (i, tb) = tbl_insert
                  (batch_columns (batch_id, recipe_name, device_id, operator, now))
                  (batch_records w)
              in (Some i, w\<lparr>batch_records := tb\<rparr>)))"

text \<open>\<open>COALESCE(?, column)\<close>.\<close>
definition coalesce :: "'a option \<Rightarrow> 'a option \<Rightarrow> 'a option" where
  "coalesce x y = (case x of None \<Rightarrow> y | Some _ \<Rightarrow> x)"

definition update_batch_status ::
    "libs \<Rightarrow> string \<Rightarrow> string \<Rightarrow> string option \<Rightarrow> world \<Rightarrow> unit result \<times> world" where
  "update_batch_status L batch_id st notes w =
     (let (end_time, w) =
            (if st = ''completed'' \<or> st = ''aborted''
             then (let (t, w) = utc_now w in (Some (to_rfc3339 L t), w)) else (None, w));
          (e, w) = sql w in
      case e of Some e \<Rightarrow> (Inl (''Failed to update batch: '' @ e), w)
      | None \<Rightarrow> (Inr (), w\<lparr>batch_records := tbl_update (\<lambda>r. br_batch_id r = batch_id)
          (\<lambda>r. r\<lparr>br_status := st, br_end_time := coalesce end_time (br_end_time r),
             br_notes := coalesce notes (br_notes r)\<rparr>) (batch_records w)\<rparr>))"

definition add_batch_step ::
    "libs \<Rightarrow> int \<Rightarrow> int \<Rightarrow> string \<Rightarrow> string option \<Rightarrow> world \<Rightarrow> int option \<times> world" where
  "add_batch_step L batch_record_id step_number name parameters w =
     (let (t, w) = utc_now w; now = to_rfc3339 L t; (e, w) = sql w in
      case e of Some _ \<Rightarrow> (None, w)
      | None \<Rightarrow>
        if \<forall>r \<in> set (rows (batch_records w)). br_id r \<noteq> batch_record_id then (None, w)
        else (let (i, tb) = tbl_insert
                  (step_columns (batch_record_id, step_number, name, parameters, now))
                  (batch_steps w)
              in (Some i, w\<lparr>batch_steps := tb\<rparr>)))"

definition complete_batch_step ::
    "libs \<Rightarrow> int \<Rightarrow> string \<Rightarrow> string option \<Rightarrow> world \<Rightarrow> unit result \<times> world" where
  "complete_batch_step L step_id st result_text w =
     (let (t, w) = utc_now w; now = to_rfc3339 L t; (e, w) = sql w in
      case e of Some e \<Rightarrow> (Inl (''Failed to complete batch step: '' @ e), w)
      | None \<Rightarrow> (Inr (), w\<lparr>batch_steps := tbl_update (\<lambda>r. bs_id r = step_id)
          (\<lambda>r. r\<lparr>bs_status := st, bs_end_time := Some now, bs_result := result_text\<rparr>)
          (batch_steps w)\<rparr>))"

definition batch_of_row :: "batch_row \<Rightarrow> batch_record" where
  "batch_of_row r = \<lparr>b_id = br_id r, b_batch_id = br_batch_id r,
     b_recipe_name = br_recipe_name r, b_device_id = br_device_id r, b_operator = br_operator r,
     b_status = batch_status_from_str (br_status r), b_start_time = br_start_time r,
     b_end_time = br_end_time r, b_notes = br_notes r\<rparr>"

definition list_batches_where :: "batch_query_params \<Rightarrow> batch_row \<Rightarrow> bool" where
  "list_batches_where p r =
     (case (bq_device_id p, bq_status p) of
        (Some d, Some s) \<Rightarrow> br_device_id r = d \<and> br_status r = s
      | (Some d, None) \<Rightarrow> br_device_id r = d
      | (None, Some s) \<Rightarrow> br_status r = s
      | (None, None) \<Rightarrow> True)"

definition list_batches :: "batch_query_params \<Rightarrow> world \<Rightarrow> batch_record list \<times> world" where
  "list_batches p w =
     (let limit = (case bq_limit p of None \<Rightarrow> 100 | Some n \<Rightarrow> n);
          (e, w) = sql w;
          found = (case e of Some _ \<Rightarrow> []
            | None \<Rightarrow> sql_limit limit
                (order_desc br_id (filter (list_batches_where p) (rows (batch_records w)))))
      in (map batch_of_row found, w))"

text \<open>\<open>ORDER BY step_number\<close>: SQL leaves the order of equal numbers open; here it is the row order.\<close>
definition get_batch_with_steps ::
    "string \<Rightarrow> world \<Rightarrow> (batch_record \<times> batch_step list) option \<times> world" where
  "get_batch_with_steps batch_id w =
     (let (e, w) = sql w in
      case e of Some _ \<Rightarrow> (None, w)
      | None \<Rightarrow> (case find (\<lambda>r. br_batch_id r = batch_id) (rows (batch_records w)) of
          None \<Rightarrow> (None, w)
        | Some r \<Rightarrow>
          (let (e, w) = sql w;
               step_rows = (case e of Some _ \<Rightarrow> []
                 | None \<Rightarrow> sort_key bs_step_number
                     (filter (\<lambda>s. bs_batch_record_id s = br_id r) (rows (batch_steps w))))
           in (Some (batch_of_row r, step_rows), w))))"

lemmas batch_op_defs = get_running_batch_def create_batch_def update_batch_status_def
  add_batch_step_def complete_batch_step_def list_batches_def get_batch_with_steps_def

text \<open>The batch operations touch nothing but the batch tables and the environment's counters.\<close>
definition only_batches :: "world \<Rightarrow> world \<Rightarrow> bool" where
  "only_batches w w' \<longleftrightarrow>
     w' = w\<lparr>batch_records := batch_records w', batch_steps := batch_steps w',
            sql_calls := sql_calls w', wall_reads := wall_reads w'\<rparr>"

lemma only_batchesD:
  assumes "only_batches w w'"
  shows "plc_readings w' = plc_readings w" "devices_tbl w' = devices_tbl w"
    "alarms w' = alarms w" "users w' = users w"
    "audit_trail w' = audit_trail w" "sql_fault w' = sql_fault w" "wall w' = wall w"
    "mono w' = mono w" "mono_reads w' = mono_reads w" "uuid w' = uuid w"
    "uuid_reads w' = uuid_reads w" "salt w' = salt w" "salt_reads w' = salt_reads w"
    "healthy w' = healthy w"
  by (subst assms [unfolded only_batches_def], simp add: healthy_def)+

lemma only_batches_ops:
  "only_batches w (snd (get_running_batch dev w))"
  "only_batches w (snd (create_batch L b n dev u w))"
  "only_batches w (snd (update_batch_status L b st x w))"
  "only_batches w (snd (add_batch_step L i k n x w))"
  "only_batches w (snd (complete_batch_step L i st x w))"
  "only_batches w (snd (list_batches p w))"
  "only_batches w (snd (get_batch_with_steps b w))"
  by (simp_all add: batch_op_defs only_batches_def env_defs Let_def tbl_insert_def
      split: option.split)

lemmas batch_frame [simp] = only_batches_ops [THEN only_batchesD(1)]
  only_batches_ops [THEN only_batchesD(2)] only_batches_ops [THEN only_batchesD(3)]
  only_batches_ops [THEN only_batchesD(4)] only_batches_ops [THEN only_batchesD(5)]
  only_batches_ops [THEN only_batchesD(6)] only_batches_ops [THEN only_batchesD(7)]
  only_batches_ops [THEN only_batchesD(8)] only_batches_ops [THEN only_batchesD(9)]
  only_batches_ops [THEN only_batchesD(10)] only_batches_ops [THEN only_batchesD(11)]
  only_batches_ops [THEN only_batchesD(12)] only_batches_ops [THEN only_batchesD(13)]
  only_batches_ops [THEN only_batchesD(14)]

section \<open>The invariant of the batch tables\<close>

definition batch_row_ok :: "batch_row \<Rightarrow> bool" where
  "batch_row_ok r \<longleftrightarrow> (br_status r = ''completed'' \<or> br_status r = ''aborted'' \<longrightarrow>
     br_end_time r \<noteq> None)"

definition batches_ok :: "world \<Rightarrow> bool" where
  "batches_ok w \<longleftrightarrow> tbl_ok br_id (batch_records w) \<and> tbl_ok bs_id (batch_steps w) \<and>
     distinct (map br_batch_id (rows (batch_records w))) \<and>
     list_all batch_row_ok (rows (batch_records w)) \<and>
     (\<forall>s \<in> set (rows (batch_steps w)).
        bs_batch_record_id s \<in> set (map br_id (rows (batch_records w))))"

datatype batch_op =
    Create string string string string
  | SetStatus string string "string option"
  | AddStep int int string "string option"
  | CompleteStep int string "string option"

fun run_batch_op :: "libs \<Rightarrow> batch_op \<Rightarrow> world \<Rightarrow> world" where
  "run_batch_op L (Create b n d u) w = snd (create_batch L b n d u w)"
| "run_batch_op L (SetStatus b s x) w = snd (update_batch_status L b s x w)"
| "run_batch_op L (AddStep i k n x) w = snd (add_batch_step L i k n x w)"
| "run_batch_op L (CompleteStep i s x) w = snd (complete_batch_step L i s x w)"

lemma batch_columns_simps [simp]:
  "br_id (batch_columns a i) = i"
  "br_batch_id (batch_columns a i) = fst a"
  "br_status (batch_columns a i) = ''running''"
  "br_device_id (batch_columns a i) = fst (snd (snd a))"
  by (simp_all add: batch_columns_def split: prod.splits)

lemma step_columns_simps [simp]:
  "bs_id (step_columns a i) = i" "bs_batch_record_id (step_columns a i) = fst a"
  by (simp_all add: step_columns_def split: prod.splits)

section \<open>What each operation does to the tables\<close>

lemma create_batch_table:
  "batch_records (snd (create_batch L b n d u w)) =
     (if sql_fault w (sql_calls w) = None \<and> b \<notin> br_batch_id ` set (rows (batch_records w))
      then snd (tbl_insert (batch_columns (b, n, d, u, to_rfc3339 L (wall w (wall_reads w))))
        (batch_records w))
      else batch_records w)"
  "batch_steps (snd (create_batch L b n d u w)) = batch_steps w"
  by (auto simp: create_batch_def env_defs Let_def tbl_insert_def split: option.split)

lemma create_batch_result:
  "fst (create_batch L b n d u w) =
     (if sql_fault w (sql_calls w) = None \<and> b \<notin> br_batch_id ` set (rows (batch_records w))
      then Some (seq (batch_records w) + 1) else None)"
  by (auto simp: create_batch_def env_defs Let_def tbl_insert_def split: option.split)

lemma update_batch_status_table:
  "batch_records (snd (update_batch_status L b st x w)) =
     (if sql_fault w (sql_calls w) = None
      then tbl_update (\<lambda>r. br_batch_id r = b)
        (\<lambda>r. r\<lparr>br_status := st, br_end_time := coalesce (if st = ''completed'' \<or> st = ''aborted''
             then Some (to_rfc3339 L (wall w (wall_reads w))) else None) (br_end_time r),
           br_notes := coalesce x (br_notes r)\<rparr>) (batch_records w)
      else batch_records w)"
  "batch_steps (snd (update_batch_status L b st x w)) = batch_steps w"
  by (simp_all add: update_batch_status_def env_defs Let_def split: option.split)

lemma add_batch_step_table:
  "batch_steps (snd (add_batch_step L i k n x w)) =
     (if sql_fault w (sql_calls w) = None \<and> i \<in> br_id ` set (rows (batch_records w))
      then snd (tbl_insert (step_columns (i, k, n, x, to_rfc3339 L (wall w (wall_reads w))))
        (batch_steps w))
      else batch_steps w)"
  "batch_records (snd (add_batch_step L i k n x w)) = batch_records w"
  by (auto simp: add_batch_step_def env_defs Let_def tbl_insert_def split: option.split)

lemma complete_batch_step_table:
  "batch_steps (snd (complete_batch_step L i st x w)) =
     (if sql_fault w (sql_calls w) = None
      then tbl_update (\<lambda>r. bs_id r = i)
        (\<lambda>r. r\<lparr>bs_status := st, bs_end_time := Some (to_rfc3339 L (wall w (wall_reads w))),
           bs_result := x\<rparr>) (batch_steps w)
      else batch_steps w)"
  "batch_records (snd (complete_batch_step L i st x w)) = batch_records w"
  by (simp_all add: complete_batch_step_def env_defs Let_def split: option.split)

lemmas batch_tables = create_batch_table update_batch_status_table add_batch_step_table
  complete_batch_step_table

lemma batches_ok_step [keeps]:
  assumes ok: "batches_ok w"
  shows "batches_ok (run_batch_op L x w)"
proof (cases x)
  case (Create b n d u)
  have "tbl_ok br_id (batch_records (run_batch_op L x w))"
    using ok Create by (auto simp: batches_ok_def create_batch_table batch_ids.insert_ok simp del: tbl_insert_simps)
  then show ?thesis
    using ok Create by (auto simp: batches_ok_def create_batch_table batch_row_ok_def)
next
  case (SetStatus b st y)
  let ?f = "\<lambda>r. r\<lparr>br_status := st, br_end_time := coalesce (if st = ''completed'' \<or> st = ''aborted''
       then Some (to_rfc3339 L (wall w (wall_reads w))) else None) (br_end_time r),
     br_notes := coalesce y (br_notes r)\<rparr>"
  have "tbl_ok br_id (tbl_update (\<lambda>r. br_batch_id r = b) ?f (batch_records w))"
    by (rule tbl_ok_update) (use ok in \<open>simp_all add: batches_ok_def\<close>)
  moreover have "list_all batch_row_ok
      (rows (tbl_update (\<lambda>r. br_batch_id r = b) ?f (batch_records w)))"
    by (rule list_all_tbl_update)
      (use ok in \<open>auto simp: batches_ok_def batch_row_ok_def coalesce_def split: option.split\<close>)
  moreover have "map br_id (rows (tbl_update (\<lambda>r. br_batch_id r = b) ?f (batch_records w))) =
      map br_id (rows (batch_records w))"
    and "map br_batch_id (rows (tbl_update (\<lambda>r. br_batch_id r = b) ?f (batch_records w))) =
      map br_batch_id (rows (batch_records w))"
    by (rule map_tbl_update, simp)+
  ultimately show ?thesis
    using ok SetStatus
    by (simp add: batches_ok_def update_batch_status_table del: tbl_update_simps set_map)
next
  case (AddStep i k n y)
  have "tbl_ok bs_id (batch_steps (run_batch_op L x w))"
    using ok AddStep by (auto simp: batches_ok_def add_batch_step_table step_ids.insert_ok simp del: tbl_insert_simps)
  then show ?thesis
    using ok AddStep by (auto simp: batches_ok_def add_batch_step_table)
next
  case (CompleteStep i st y)
  have "tbl_ok bs_id (batch_steps (run_batch_op L x w))"
    using ok CompleteStep by (auto simp: batches_ok_def complete_batch_step_table intro!: tbl_ok_update)
  then show ?thesis
    using ok CompleteStep by (auto simp: batches_ok_def complete_batch_step_table)
qed

lemma run_batch_ops_ok: "batches_ok w \<Longrightarrow> batches_ok (fold (run_batch_op L) ops w)"
  by (induction ops arbitrary: w) (simp_all add: keeps)

text \<open>
  The batch tables stay well-formed. From a fresh database, after any sequence of batch
  operations, whichever statements fail: row ids are unique and ascending, batch ids are unique,
  every step belongs to an existing batch record, and a completed or aborted batch has an end time.
\<close>
theorem batch_tables_invariant:
  "batches_ok (fold (run_batch_op L) ops (fresh_world f c m u s))"
proof -
  have "batches_ok (fresh_world f c m u s)"
    by (simp add: batches_ok_def fresh_world_def) (simp add: empty_table_def)
  then show ?thesis by (rule run_batch_ops_ok)
qed

text \<open>
  A batch id is created once. Creating a batch with a new id gives a record that is the running
  batch of its device, and any later creation with the same id is refused and leaves the batch
  records as they are.
\<close>
theorem create_batch_once:
  assumes "healthy w" and "tbl_ok br_id (batch_records w)"
    and "b \<notin> br_batch_id ` set (rows (batch_records w))"
  shows "\<exists>i w'. create_batch L b n d u w = (Some i, w') \<and>
     fst (get_running_batch d w') = Some (i, b) \<and>
     fst (create_batch L b n' d' u' w') = None \<and>
     batch_records (snd (create_batch L b n' d' u' w')) = batch_records w'"
proof -
  let ?w = "snd (create_batch L b n d u w)"
  let ?row = "batch_columns (b, n, d, u, to_rfc3339 L (wall w (wall_reads w))) (seq (batch_records w) + 1)"
  have i: "fst (create_batch L b n d u w) = Some (seq (batch_records w) + 1)"
    using assms(1,3) by (simp add: create_batch_result)
  have rows: "rows (batch_records ?w) = rows (batch_records w) @ [?row]"
    using assms(1,3) by (simp add: create_batch_table)
  have row: "running_on d ?row" by (simp add: running_on_def)
  have "order_desc br_id (filter (running_on d) (rows (batch_records ?w))) =
      ?row # order_desc br_id (filter (running_on d) (rows (batch_records w)))"
    unfolding rows by (rule batch_ids.newest_first [where P = "running_on d", OF assms(2) row])
  then have "fst (get_running_batch d ?w) = Some (seq (batch_records w) + 1, b)"
    using assms(1) by (simp add: get_running_batch_def env_defs Let_def sql_limit_def)
  moreover have "fst (create_batch L b n' d' u' ?w) = None"
    by (simp add: create_batch_result [of L b n' d' u' ?w] rows)
  moreover have "batch_records (snd (create_batch L b n' d' u' ?w)) = batch_records ?w"
    by (simp add: create_batch_table(1) [of L b n' d' u' ?w] rows)
  ultimately show ?thesis using i by (cases "create_batch L b n d u w") auto
qed

theorem create_batch_once_witness:
  "\<exists>i w'. create_batch sample_libs ''BATCH-plc-01-0001'' ''Reactor Cycle'' ''plc-01'' ''system''
       sample_world = (Some i, w') \<and>
     fst (create_batch sample_libs ''BATCH-plc-01-0001'' ''Reactor Cycle'' ''plc-01'' ''system'' w') =
       None"
proof -
  have "tbl_ok br_id (batch_records sample_world)" by simp
  moreover have "''BATCH-plc-01-0001'' \<notin> br_batch_id ` set (rows (batch_records sample_world))"
    by (simp add: empty_table_def)
  ultimately show ?thesis
    using create_batch_once [OF sample_healthy] by blast
qed

end
