(* ===== verification/Readings.thy ===== *)
theory Readings
  imports Samples
begin

text \<open>
  PLC readings and persisted devices: \<open>server/src/db.rs\<close> lines 117 to 225 and the time-series
  adapter \<open>server/src/tsdb.rs\<close>. The trait \<open>TimeSeriesStore\<close> is the locale \<open>time_series_store\<close>,
  with the abstract contents of the store as a list of readings; the SQLite backend is its
  interpretation \<open>sqlite\<close>. A device configuration is stored as one row of \<open>devices\<close> and read back.
\<close>

section \<open>Devices\<close>

definition device_columns :: "libs \<Rightarrow> device_config \<Rightarrow> device_row" where
  "device_columns L dev = \<lparr>dr_id = dc_id dev, dr_name = dc_name dev, dr_address = dc_address dev,
     dr_protocol = dc_protocol dev, dr_poll_rate_ms = sint (dc_poll_rate_ms dev),
     dr_register_start = uint (dc_register_start dev),
     dr_register_count = uint (dc_register_count dev),
     dr_writable = u16s_to_json L (dc_writable dev)\<rparr>"

text \<open>\<open>INSERT OR REPLACE\<close>: a row with the same primary key is deleted first.\<close>
definition save_device :: "libs \<Rightarrow> device_config \<Rightarrow> world \<Rightarrow> world" where
  "save_device L dev w =
     (let (e, w) = sql w in
      case e of Some _ \<Rightarrow> w
      | None \<Rightarrow> w\<lparr>devices_tbl := filter (\<lambda>r. dr_id r \<noteq> dc_id dev) (devices_tbl w) @
          [device_columns L dev]\<rparr>)"

definition device_of_row :: "libs \<Rightarrow> device_row \<Rightarrow> device_config" where
  "device_of_row L r = \<lparr>dc_id = dr_id r, dc_name = dr_name r, dc_address = dr_address r,
     dc_protocol = dr_protocol r, dc_poll_rate_ms = word_of_int (dr_poll_rate_ms r),
     dc_register_start = word_of_int (dr_register_start r),
     dc_register_count = word_of_int (dr_register_count r),
     dc_writable = (case u16s_from_json L (dr_writable r) of None \<Rightarrow> [] | Some ws \<Rightarrow> ws)\<rparr>"

definition load_devices :: "libs \<Rightarrow> world \<Rightarrow> device_config list \<times> world" where
  "load_devices L w =
     (let (e, w) = sql w in
      (map (device_of_row L) (case e of Some _ \<Rightarrow> [] | None \<Rightarrow> devices_tbl w), w))"

definition delete_device :: "string \<Rightarrow> world \<Rightarrow> world" where
  "delete_device i w =
     (let (e, w) = sql w in
      case e of Some _ \<Rightarrow> w
      | None \<Rightarrow> w\<lparr>devices_tbl := filter (\<lambda>r. dr_id r \<noteq> i) (devices_tbl w)\<rparr>)"

section \<open>Readings\<close>

definition reading_columns :: "string \<times> int \<times> f64 \<times> string \<Rightarrow> int \<Rightarrow> reading_row" where
  "reading_columns a i = (case a of (dev, reg, v, ts) \<Rightarrow>
     \<lparr>rd_id = i, rd_device_id = dev, rd_register = reg, rd_value = v, rd_timestamp = ts\<rparr>)"

interpretation reading_ids: id_table rd_id reading_columns
  by unfold_locales (simp add: reading_columns_def split: prod.splits)

definition columns_of_data :: "libs \<Rightarrow> plc_data \<Rightarrow> string \<times> int \<times> f64 \<times> string" where
  "columns_of_data L d =
     (pd_device_id d, uint (pd_register d), pd_value d, to_rfc3339 L (pd_timestamp d))"

definition save_plc_data :: "libs \<Rightarrow> plc_data \<Rightarrow> world \<Rightarrow> world" where
  "save_plc_data L d w =
     (let (e, w) = sql w in
      case e of Some _ \<Rightarrow> w
      | None \<Rightarrow> w\<lparr>plc_readings :=
          snd (tbl_insert (reading_columns (columns_of_data L d)) (plc_readings w))\<rparr>)"

definition data_of_row :: "time \<Rightarrow> reading_row \<Rightarrow> plc_data" where
  "data_of_row t r = \<lparr>pd_device_id = rd_device_id r, pd_register = word_of_int (rd_register r),
     pd_value = rd_value r, pd_timestamp = t\<rparr>"

definition get_history :: "libs \<Rightarrow> string \<Rightarrow> int \<Rightarrow> world \<Rightarrow> plc_data list \<times> world" where
  "get_history L dev limit w =
     (let (e, w) = sql w;
          found = (case e of Some _ \<Rightarrow> []
            | None \<Rightarrow> sql_limit limit
                (order_desc rd_id (filter (\<lambda>r. rd_device_id r = dev) (rows (plc_readings w)))))
      in (List.map_filter (\<lambda>r. map_option (\<lambda>t. data_of_row t r) (parse_utc L (rd_timestamp r)))
            found, w))"

section \<open>The time-series adapter\<close>

definition tsdb_insert :: "libs \<Rightarrow> plc_data \<Rightarrow> world \<Rightarrow> world" where
  "tsdb_insert L d w =
     (let (e, w) = sql w in
      case e of Some _ \<Rightarrow> w
      | None \<Rightarrow> w\<lparr>plc_readings :=
          snd (tbl_insert (reading_columns (columns_of_data L d)) (plc_readings w))\<rparr>)"

definition tsdb_query :: "libs \<Rightarrow> string \<Rightarrow> int \<Rightarrow> world \<Rightarrow> plc_data list \<times> world" where
  "tsdb_query L dev limit w = get_history L dev limit w"

text \<open>A row whose timestamp does not parse gets the current time.\<close>
fun data_of_rows :: "libs \<Rightarrow> reading_row list \<Rightarrow> world \<Rightarrow> plc_data list \<times> world" where
  "data_of_rows L [] w = ([], w)"
| "data_of_rows L (r # rs) w =
     (let (t, w) = (case parse_rfc3339 L (rd_timestamp r) of
            Some t \<Rightarrow> (t, w) | None \<Rightarrow> utc_now w);
          (ds, w) = data_of_rows L rs w
      in (data_of_row t r # ds, w))"

text \<open>\<open>ORDER BY timestamp DESC\<close>; SQL leaves the order of equal timestamps open.\<close>
definition tsdb_query_range ::
    "libs \<Rightarrow> string \<Rightarrow> string \<Rightarrow> string \<Rightarrow> int \<Rightarrow> world \<Rightarrow> plc_data list \<times> world" where
  "tsdb_query_range L dev from until limit w =
     (let (e, w) = sql w;
          found = (case e of Some _ \<Rightarrow> []
            | None \<Rightarrow> sql_limit limit (rev (sort_key rd_timestamp
                (filter (\<lambda>r. rd_device_id r = dev \<and> from \<le> rd_timestamp r \<and>
                   rd_timestamp r \<le> until) (rows (plc_readings w))))))
      in data_of_rows L found w)"

definition tsdb_purge_older_than :: "libs \<Rightarrow> int \<Rightarrow> world \<Rightarrow> int \<times> world" where
  "tsdb_purge_older_than L days w =
     (let (t, w) = utc_now w;
          cutoff = to_rfc3339 L (t - days * 86400 * 1000000000);
          (e, w) = sql w in
      case e of Some _ \<Rightarrow> (0, w)
      | None \<Rightarrow> (int (length (filter (\<lambda>r. rd_timestamp r < cutoff) (rows (plc_readings w)))),
          w\<lparr>plc_readings := tbl_delete (\<lambda>r. rd_timestamp r < cutoff) (plc_readings w)\<rparr>))"

lemmas reading_op_defs = save_plc_data_def get_history_def tsdb_insert_def tsdb_query_def
  tsdb_query_range_def tsdb_purge_older_than_def


text \<open>These operations touch nothing but the readings and devices and the counters.\<close>
definition only_readings :: "world \<Rightarrow> world \<Rightarrow> bool" where
  "only_readings w w' \<longleftrightarrow>
     w' = w\<lparr>plc_readings := plc_readings w', devices_tbl := devices_tbl w',
            sql_calls := sql_calls w', wall_reads := wall_reads w'\<rparr>"

lemma only_readingsD:
  assumes "only_readings w w'"
  shows "batch_records w' = batch_records w" "batch_steps w' = batch_steps w"
    "alarms w' = alarms w" "users w' = users w"
    "audit_trail w' = audit_trail w" "sql_fault w' = sql_fault w" "wall w' = wall w"
    "mono w' = mono w" "mono_reads w' = mono_reads w" "uuid w' = uuid w"
    "uuid_reads w' = uuid_reads w" "salt w' = salt w" "salt_reads w' = salt_reads w"
    "healthy w' = healthy w"
  by (subst assms [unfolded only_readings_def], simp add: healthy_def)+

lemma only_readings_refl: "only_readings w w"
  by (simp add: only_readings_def)

lemma only_readings_ops:
  "only_readings w (save_device L dev w)"
  "only_readings w (snd (load_devices L w))"
  "only_readings w (delete_device i w)"
  "only_readings w (save_plc_data L d w)"
  "only_readings w (snd (get_history L i n w))"
  "only_readings w (tsdb_insert L d w)"
  by (simp_all add: save_device_def load_devices_def delete_device_def reading_op_defs
      only_readings_def env_defs Let_def tbl_insert_def split: option.split)

lemmas reading_frame [simp] = only_readings_ops [THEN only_readingsD(1)]
  only_readings_ops [THEN only_readingsD(2)] only_readings_ops [THEN only_readingsD(3)]
  only_readings_ops [THEN only_readingsD(4)] only_readings_ops [THEN only_readingsD(5)]
  only_readings_ops [THEN only_readingsD(6)] only_readings_ops [THEN only_readingsD(7)]
  only_readings_ops [THEN only_readingsD(8)] only_readings_ops [THEN only_readingsD(9)]
  only_readings_ops [THEN only_readingsD(10)] only_readings_ops [THEN only_readingsD(11)]
  only_readings_ops [THEN only_readingsD(12)] only_readings_ops [THEN only_readingsD(13)]
  only_readings_ops [THEN only_readingsD(14)]

section \<open>Devices survive a restart\<close>

lemma device_of_columns:
  "u16s_json_roundtrip L \<Longrightarrow> device_of_row L (device_columns L dev) = dev"
  by (simp add: device_of_row_def device_columns_def u16s_json_roundtrip_def)

lemma id_of_row [simp]: "dc_id (device_of_row L r) = dr_id r"
  by (simp add: device_of_row_def)

lemma load_saved:
  "u16s_json_roundtrip L \<Longrightarrow> healthy w \<Longrightarrow> fst (load_devices L (save_device L dev w)) =
     filter (\<lambda>d. dc_id d \<noteq> dc_id dev) (fst (load_devices L w)) @ [dev]"
  by (simp add: load_devices_def save_device_def env_defs device_of_columns filter_map comp_def)

lemma load_deleted:
  "healthy w \<Longrightarrow> fst (load_devices L (delete_device i w)) =
     filter (\<lambda>d. dc_id d \<noteq> i) (fst (load_devices L w))"
  by (simp add: load_devices_def delete_device_def env_defs filter_map comp_def)

text \<open>
  C34: a runtime-added device survives a restart unchanged. After saving a device, loading returns it
  bit for bit (the 64-bit poll rate and the 16-bit registers pass through signed 64-bit columns, the
  writable list through JSON), last and in place of any earlier device of the same id, with all other
  devices as before; deleting it again leaves exactly those.
\<close>
theorem device_roundtrip:
  assumes "u16s_json_roundtrip L" and "healthy w"
  shows "fst (load_devices L (save_device L dev w)) =
      filter (\<lambda>d. dc_id d \<noteq> dc_id dev) (fst (load_devices L w)) @ [dev] \<and>
    fst (load_devices L (delete_device (dc_id dev) (save_device L dev w))) =
      filter (\<lambda>d. dc_id d \<noteq> dc_id dev) (fst (load_devices L w))"
  using assms by (simp add: load_saved load_deleted)

definition sample_device :: device_config where
  "sample_device = \<lparr>dc_id = ''plc-01'', dc_name = ''Batch Reactor'', dc_address = ''127.0.0.1:5020'',
     dc_protocol = ''modbus'', dc_poll_rate_ms = 1000, dc_register_start = 1028,
     dc_register_count = 8, dc_writable = [1028, 1031, 1032, 1034, 1035]\<rparr>"

theorem device_roundtrip_witness:
  "fst (load_devices sample_libs (save_device sample_libs sample_device sample_world)) = [sample_device]"
  using device_roundtrip [OF sample_u16s_json sample_healthy, of sample_device]
  by (simp add: load_devices_def env_defs)

section \<open>The store contract\<close>

locale time_series_store =
  fixes insert :: "plc_data \<Rightarrow> 's \<Rightarrow> 's"
    and query :: "string \<Rightarrow> int \<Rightarrow> 's \<Rightarrow> plc_data list \<times> 's"
    and query_range :: "string \<Rightarrow> string \<Rightarrow> string \<Rightarrow> int \<Rightarrow> 's \<Rightarrow> plc_data list \<times> 's"
    and purge :: "int \<Rightarrow> 's \<Rightarrow> int \<times> 's"
    and contents :: "'s \<Rightarrow> plc_data list"
    and text_of :: "'s \<Rightarrow> time \<Rightarrow> string"
    and now :: "'s \<Rightarrow> time"
    and ok :: "'s \<Rightarrow> bool"
  assumes insert_ok: "ok s \<Longrightarrow> 0 \<le> pd_timestamp d \<Longrightarrow> ok (insert d s)"
    and insert_contents: "ok s \<Longrightarrow> 0 \<le> pd_timestamp d \<Longrightarrow> contents (insert d s) = contents s @ [d]"
    and query_result: "ok s \<Longrightarrow> fst (query dev n s) =
      sql_limit n (rev (filter (\<lambda>d. pd_device_id d = dev) (contents s)))"
    and range_result: "ok s \<Longrightarrow> 0 \<le> a \<Longrightarrow> 0 \<le> b \<Longrightarrow>
      fst (query_range dev (text_of s a) (text_of s b) n s) =
      sql_limit n (rev (sort_key pd_timestamp
        (filter (\<lambda>d. pd_device_id d = dev \<and> a \<le> pd_timestamp d \<and> pd_timestamp d \<le> b)
          (contents s))))"
    and purge_contents: "ok s \<Longrightarrow> 0 \<le> now s - days * 86400 * 1000000000 \<Longrightarrow>
      contents (snd (purge days s)) =
        filter (\<lambda>d. now s - days * 86400 * 1000000000 \<le> pd_timestamp d) (contents s)"
    and purge_count: "ok s \<Longrightarrow>
      fst (purge days s) + int (length (contents (snd (purge days s)))) = int (length (contents s))"
    and purge_ok: "ok s \<Longrightarrow> ok (snd (purge days s))"
begin

lemma insert_all:
  "ok s \<Longrightarrow> \<forall>d \<in> set ds. 0 \<le> pd_timestamp d \<Longrightarrow>
   ok (fold insert ds s) \<and> contents (fold insert ds s) = contents s @ ds"
  by (induction ds arbitrary: s) (simp_all add: insert_ok insert_contents)

lemma latest:
  "ok s \<Longrightarrow> 0 \<le> pd_timestamp d \<Longrightarrow> fst (query (pd_device_id d) 1 (insert d s)) = [d]"
  by (simp add: query_result insert_ok insert_contents sql_limit_def)

lemma history:
  assumes "ok s" and "\<forall>d \<in> set ds. 0 \<le> pd_timestamp d" and "contents s = []"
  shows "fst (query dev n (fold insert ds s)) =
    sql_limit n (rev (filter (\<lambda>d. pd_device_id d = dev) ds))"
  using insert_all [OF assms(1,2)] assms(3) by (simp add: query_result)

lemma fresh_survives:
  assumes "ok s" and "0 \<le> now s - days * 86400 * 1000000000"
    and "d \<in> set (contents s)" and "now s - days * 86400 * 1000000000 \<le> pd_timestamp d"
  shows "d \<in> set (fst (query (pd_device_id d) (-1) (snd (purge days s))))"
  using assms by (simp add: query_result purge_ok purge_contents sql_limit_def)

lemma nothing_stale:
  assumes "ok s" and "0 \<le> now s - days * 86400 * 1000000000"
    and "d \<in> set (fst (query dev n (snd (purge days s))))"
  shows "now s - days * 86400 * 1000000000 \<le> pd_timestamp d \<and> pd_device_id d = dev"
  using assms set_sql_limit by (fastforce simp: query_result purge_ok purge_contents)

end

section \<open>The SQLite backend keeps the contract\<close>

definition reading_stored :: "libs \<Rightarrow> reading_row \<Rightarrow> bool" where
  "reading_stored L r \<longleftrightarrow>
     (\<exists>d. 0 \<le> pd_timestamp d \<and> r = reading_columns (columns_of_data L d) (rd_id r))"

definition stored_ok :: "libs \<times> world \<Rightarrow> bool" where
  "stored_ok s = (case s of (L, w) \<Rightarrow> rfc3339_parses L \<and> rfc3339_ordered L \<and> healthy w \<and>
     tbl_ok rd_id (plc_readings w) \<and> list_all (reading_stored L) (rows (plc_readings w)))"

definition row_data :: "libs \<Rightarrow> reading_row \<Rightarrow> plc_data" where
  "row_data L r = data_of_row (case parse_utc L (rd_timestamp r) of None \<Rightarrow> 0 | Some t \<Rightarrow> t) r"

definition stored :: "libs \<times> world \<Rightarrow> plc_data list" where
  "stored s = (case s of (L, w) \<Rightarrow> map (row_data L) (rows (plc_readings w)))"

lemma row_data_columns [simp]:
  "rfc3339_parses L \<Longrightarrow> 0 \<le> pd_timestamp d \<Longrightarrow>
   row_data L (reading_columns (columns_of_data L d) i) = d"
  by (simp add: row_data_def data_of_row_def reading_columns_def columns_of_data_def
      rfc3339_parses_def)

lemma reading_columns_simps [simp]:
  "rd_id (reading_columns a i) = i" "rd_device_id (reading_columns a i) = fst a"
  "rd_timestamp (reading_columns a i) = snd (snd (snd a))"
  by (simp_all add: reading_columns_def split: prod.splits)

lemma reading_storedE:
  assumes "reading_stored L r" and "rfc3339_parses L"
  shows "rd_timestamp r = to_rfc3339 L (pd_timestamp (row_data L r))"
    and "0 \<le> pd_timestamp (row_data L r)" and "rd_device_id r = pd_device_id (row_data L r)"
    and "parse_rfc3339 L (rd_timestamp r) = Some (pd_timestamp (row_data L r))"
    and "parse_utc L (rd_timestamp r) = Some (pd_timestamp (row_data L r))"
proof -
  from assms(1) obtain d where d: "0 \<le> pd_timestamp d"
    and r: "r = reading_columns (columns_of_data L d) (rd_id r)"
    by (auto simp: reading_stored_def)
  have e: "row_data L r = d"
    using d assms(2) by (subst r) simp
  show t: "rd_timestamp r = to_rfc3339 L (pd_timestamp (row_data L r))"
    unfolding e by (subst r) (simp add: columns_of_data_def)
  show "0 \<le> pd_timestamp (row_data L r)" using d e by simp
  show "rd_device_id r = pd_device_id (row_data L r)"
    unfolding e by (subst r) (simp add: columns_of_data_def)
  show "parse_rfc3339 L (rd_timestamp r) = Some (pd_timestamp (row_data L r))"
    and "parse_utc L (rd_timestamp r) = Some (pd_timestamp (row_data L r))"
    using assms(2) d unfolding t e by (auto simp: rfc3339_parses_def)
qed

lemma sort_key_iso:
  assumes "\<And>x y. x \<in> set xs \<Longrightarrow> y \<in> set xs \<Longrightarrow> k x \<le> k y \<longleftrightarrow> g x \<le> g y"
  shows "sort_key k xs = sort_key g xs"
  using assms
proof (induction xs)
  case (Cons x xs)
  have "insort_key k x ys = insort_key g x ys" if "set ys \<subseteq> set xs" for ys
    using that Cons.prems by (induction ys) auto
  with Cons show ?case by simp
qed simp

lemma sort_key_map: "sort_key k (map f xs) = map f (sort_key (\<lambda>x. k (f x)) xs)"
proof -
  have "insort_key k (f x) (map f ys) = map f (insort_key (\<lambda>x. k (f x)) x ys)" for x ys
    by (induction ys) auto
  then show ?thesis by (induction xs) simp_all
qed

lemma data_of_stored:
  assumes "reading_stored L r" and "rfc3339_parses L"
  shows "data_of_row (pd_timestamp (row_data L r)) r = row_data L r"
proof -
  obtain t where "parse_utc L (rd_timestamp r) = Some t"
    using reading_storedE(5) [OF assms] by blast
  then have "row_data L r = data_of_row t r" by (simp add: row_data_def)
  then show ?thesis by (simp add: data_of_row_def)
qed

lemma data_of_rows_stored:
  "list_all (reading_stored L) rs \<Longrightarrow> rfc3339_parses L \<Longrightarrow>
   data_of_rows L rs w = (map (row_data L) rs, w)"
  by (induction rs) (simp_all add: reading_storedE(4) data_of_stored)

lemma map_filter_stored:
  "list_all (reading_stored L) rs \<Longrightarrow> rfc3339_parses L \<Longrightarrow>
   List.map_filter (\<lambda>r. map_option (\<lambda>t. data_of_row t r) (parse_utc L (rd_timestamp r))) rs =
   map (row_data L) rs"
  by (induction rs) (simp_all add: map_filter_simps reading_storedE(5) data_of_stored)

lemma stored_sublist:
  "list_all Q xs \<Longrightarrow> set ys \<subseteq> set xs \<Longrightarrow> list_all Q ys"
  by (auto simp: list_all_iff)

lemma sql_limit_map: "sql_limit n (map f xs) = map f (sql_limit n xs)"
  by (simp add: sql_limit_def take_map)

lemma filter_stored:
  assumes "list_all (reading_stored L) rs" and "rfc3339_parses L"
    and "\<And>r. r \<in> set rs \<Longrightarrow> Q r = P (row_data L r)"
  shows "filter P (map (row_data L) rs) = map (row_data L) (filter Q rs)"
  using assms(3) by (induction rs) auto

lemma reading_stored_columns:
  "0 \<le> pd_timestamp d \<Longrightarrow> reading_stored L (reading_columns (columns_of_data L d) i)"
  by (auto simp: reading_stored_def)

lemma sqlite_insert:
  assumes "stored_ok (L, w)" and "0 \<le> pd_timestamp d"
  shows "stored_ok (L, tsdb_insert L d w)" and "stored (L, tsdb_insert L d w) = stored (L, w) @ [d]"
proof -
  have tab: "plc_readings (tsdb_insert L d w) =
      snd (tbl_insert (reading_columns (columns_of_data L d)) (plc_readings w))"
    using assms(1) by (simp add: stored_ok_def tsdb_insert_def env_defs)
  have "tbl_ok rd_id (plc_readings (tsdb_insert L d w))"
    unfolding tab using assms(1) by (intro reading_ids.insert_ok) (simp add: stored_ok_def)
  then show "stored_ok (L, tsdb_insert L d w)"
    using assms tab by (simp add: stored_ok_def reading_stored_columns)
  show "stored (L, tsdb_insert L d w) = stored (L, w) @ [d]"
    using assms tab by (simp add: stored_def stored_ok_def)
qed

lemma sqlite_query:
  assumes "stored_ok (L, w)"
  shows "fst (tsdb_query L dev n w) =
    sql_limit n (rev (filter (\<lambda>d. pd_device_id d = dev) (stored (L, w))))"
proof -
  let ?rs = "filter (\<lambda>r. rd_device_id r = dev) (rows (plc_readings w))"
  have ok: "list_all (reading_stored L) (rows (plc_readings w))" "rfc3339_parses L"
    and "healthy w" "tbl_ok rd_id (plc_readings w)"
    using assms by (simp_all add: stored_ok_def)
  then have "fst (tsdb_query L dev n w) =
      List.map_filter (\<lambda>r. map_option (\<lambda>t. data_of_row t r) (parse_utc L (rd_timestamp r)))
        (sql_limit n (rev ?rs))"
    by (simp add: tsdb_query_def get_history_def env_defs Let_def order_desc_rows)
  also have "\<dots> = map (row_data L) (sql_limit n (rev ?rs))"
    by (rule map_filter_stored)
      (use ok set_sql_limit [of n "rev ?rs"] in \<open>auto simp: list_all_iff\<close>)
  also have "map (row_data L) ?rs = filter (\<lambda>d. pd_device_id d = dev) (stored (L, w))"
    unfolding stored_def prod.case
    by (rule filter_stored [OF ok, symmetric])
      (use ok in \<open>auto simp: list_all_iff reading_storedE(3)\<close>)
  then have "map (row_data L) (sql_limit n (rev ?rs)) =
      sql_limit n (rev (filter (\<lambda>d. pd_device_id d = dev) (stored (L, w))))"
    by (simp flip: sql_limit_map rev_map)
  finally show ?thesis .
qed

lemma sqlite_range:
  assumes "stored_ok (L, w)" and "0 \<le> a" and "0 \<le> b"
  shows "fst (tsdb_query_range L dev (to_rfc3339 L a) (to_rfc3339 L b) n w) =
    sql_limit n (rev (sort_key pd_timestamp
      (filter (\<lambda>d. pd_device_id d = dev \<and> a \<le> pd_timestamp d \<and> pd_timestamp d \<le> b)
        (stored (L, w)))))"
proof -
  let ?P = "\<lambda>d. pd_device_id d = dev \<and> a \<le> pd_timestamp d \<and> pd_timestamp d \<le> b"
  let ?Q = "\<lambda>r. rd_device_id r = dev \<and> to_rfc3339 L a \<le> rd_timestamp r \<and>
     rd_timestamp r \<le> to_rfc3339 L b"
  let ?rs = "filter ?Q (rows (plc_readings w))"
  have ok: "list_all (reading_stored L) (rows (plc_readings w))" "rfc3339_parses L"
    and ord: "rfc3339_ordered L" and h: "healthy w"
    using assms(1) by (simp_all add: stored_ok_def)
  have le: "to_rfc3339 L s \<le> to_rfc3339 L t \<longleftrightarrow> s \<le> t" if "0 \<le> s" "0 \<le> t" for s t
    using ord that unfolding rfc3339_ordered_def by (meson linorder_not_less)
  have row: "rd_timestamp r = to_rfc3339 L (pd_timestamp (row_data L r))"
    "0 \<le> pd_timestamp (row_data L r)" "rd_device_id r = pd_device_id (row_data L r)"
    if "r \<in> set (rows (plc_readings w))" for r
    using that ok by (auto simp: list_all_iff reading_storedE)
  have "fst (tsdb_query_range L dev (to_rfc3339 L a) (to_rfc3339 L b) n w) =
      fst (data_of_rows L (sql_limit n (rev (sort_key rd_timestamp ?rs)))
        (w\<lparr>sql_calls := sql_calls w + 1\<rparr>))"
    using h by (simp add: tsdb_query_range_def env_defs Let_def)
  also have "\<dots> = map (row_data L) (sql_limit n (rev (sort_key rd_timestamp ?rs)))"
    by (subst data_of_rows_stored)
      (use ok set_sql_limit [of n "rev (sort_key rd_timestamp ?rs)"] in \<open>auto simp: list_all_iff\<close>)
  also have "sort_key rd_timestamp ?rs = sort_key (\<lambda>r. pd_timestamp (row_data L r)) ?rs"
    by (rule sort_key_iso) (simp add: row le)
  also have "map (row_data L) (sql_limit n (rev (sort_key (\<lambda>r. pd_timestamp (row_data L r)) ?rs))) =
      sql_limit n (rev (sort_key pd_timestamp (map (row_data L) ?rs)))"
    by (simp add: sort_key_map rev_map flip: sql_limit_map)
  also have "map (row_data L) ?rs = filter ?P (stored (L, w))"
    unfolding stored_def prod.case
    by (rule filter_stored [OF ok, symmetric]) (simp add: row le assms)
  finally show ?thesis .
qed

lemma sqlite_purge:
  fixes L :: libs and w :: world and days :: int
  assumes "stored_ok (L, w)"
  defines "cutoff \<equiv> wall w (wall_reads w) - days * 86400 * 1000000000"
  shows "stored_ok (L, snd (tsdb_purge_older_than L days w))"
    and "0 \<le> cutoff \<Longrightarrow> stored (L, snd (tsdb_purge_older_than L days w)) =
      filter (\<lambda>d. cutoff \<le> pd_timestamp d) (stored (L, w))"
    and "fst (tsdb_purge_older_than L days w) +
      int (length (stored (L, snd (tsdb_purge_older_than L days w)))) = int (length (stored (L, w)))"
proof -
  have ok: "list_all (reading_stored L) (rows (plc_readings w))" "rfc3339_parses L"
    and ord: "rfc3339_ordered L" and h: "healthy w"
    using assms(1) by (simp_all add: stored_ok_def)
  have tab: "plc_readings (snd (tsdb_purge_older_than L days w)) =
      tbl_delete (\<lambda>r. rd_timestamp r < to_rfc3339 L cutoff) (plc_readings w)"
    and n: "fst (tsdb_purge_older_than L days w) =
      int (length (filter (\<lambda>r. rd_timestamp r < to_rfc3339 L cutoff) (rows (plc_readings w))))"
    and h': "healthy (snd (tsdb_purge_older_than L days w))"
    using h by (simp_all add: tsdb_purge_older_than_def env_defs Let_def cutoff_def healthy_def)
  show "stored_ok (L, snd (tsdb_purge_older_than L days w))"
    using assms(1) h' by (auto simp: stored_ok_def tab tbl_ok_delete list_all_iff simp del: tbl_delete_simps(2))
  show "fst (tsdb_purge_older_than L days w) +
      int (length (stored (L, snd (tsdb_purge_older_than L days w)))) = int (length (stored (L, w)))"
    using sum_length_filter_compl [of "\<lambda>r. rd_timestamp r < to_rfc3339 L cutoff" "rows (plc_readings w)"]
    by (simp add: stored_def tab n)
  assume c: "0 \<le> cutoff"
  have "filter (\<lambda>d. cutoff \<le> pd_timestamp d) (map (row_data L) (rows (plc_readings w))) =
      map (row_data L) (filter (\<lambda>r. \<not> rd_timestamp r < to_rfc3339 L cutoff) (rows (plc_readings w)))"
    by (rule filter_stored [OF ok])
      (use ok ord c in \<open>auto simp: list_all_iff reading_storedE(1,2) rfc3339_ordered_def\<close>)
  then show "stored (L, snd (tsdb_purge_older_than L days w)) =
      filter (\<lambda>d. cutoff \<le> pd_timestamp d) (stored (L, w))"
    by (simp add: stored_def tab)
qed

interpretation sqlite: time_series_store
  "\<lambda>d (L, w). (L, tsdb_insert L d w)"
  "\<lambda>dev n (L, w). (fst (tsdb_query L dev n w), (L, snd (tsdb_query L dev n w)))"
  "\<lambda>dev a b n (L, w). (fst (tsdb_query_range L dev a b n w), (L, snd (tsdb_query_range L dev a b n w)))"
  "\<lambda>days (L, w). (fst (tsdb_purge_older_than L days w), (L, snd (tsdb_purge_older_than L days w)))"
  stored "\<lambda>(L, w). to_rfc3339 L" "\<lambda>(L, w). wall w (wall_reads w)" stored_ok
  by unfold_locales
    (auto simp: sqlite_insert sqlite_query sqlite_range sqlite_purge split: prod.splits)

section \<open>What the store promises\<close>

lemma fold_insert_pair:
  "fold (\<lambda>d (L, w). (L, tsdb_insert L d w)) ds (L, w) = (L, fold (tsdb_insert L) ds w)"
  by (induction ds arbitrary: w) simp_all

lemma stored_ok_empty:
  "rfc3339_parses L \<Longrightarrow> rfc3339_ordered L \<Longrightarrow> healthy w \<Longrightarrow> plc_readings w = empty_table \<Longrightarrow>
   stored_ok (L, w) \<and> stored (L, w) = []"
  by (simp add: stored_ok_def stored_def) (simp add: empty_table_def)

text \<open>
  History is faithful. Querying a device returns the readings inserted for it, newest first, up
  to the limit, with device, register, value and timestamp as inserted.
\<close>
theorem tsdb_history:
  assumes "rfc3339_parses L" and "rfc3339_ordered L" and "healthy w"
    and "plc_readings w = empty_table" and "\<forall>d \<in> set ds. 0 \<le> pd_timestamp d"
  shows "fst (tsdb_query L dev n (fold (tsdb_insert L) ds w)) =
    sql_limit n (rev (filter (\<lambda>d. pd_device_id d = dev) ds))"
  using sqlite.history [of "(L, w)" ds dev n] stored_ok_empty [OF assms(1-4)] assms(5)
  by (simp add: fold_insert_pair)

definition sample_reading :: "u16 \<Rightarrow> time \<Rightarrow> plc_data" where
  "sample_reading reg t = \<lparr>pd_device_id = ''plc-01'', pd_register = reg, pd_value = 42,
     pd_timestamp = t\<rparr>"

theorem tsdb_history_witness:
  "fst (tsdb_query sample_libs ''plc-01'' 1 (fold (tsdb_insert sample_libs)
     [sample_reading 1028 5, sample_reading 1029 6] sample_world)) = [sample_reading 1029 6]"
  using tsdb_history [OF sample_parses sample_ordered sample_healthy,
      of "[sample_reading 1028 5, sample_reading 1029 6]" "''plc-01''" 1]
  by (simp add: sample_reading_def sql_limit_def)

text \<open>
  Purging by age is exact. After \<open>purge_older_than(days)\<close>, the history of a device is the
  earlier history without the readings older than that many days, and the returned count is the
  number of readings removed.
\<close>
theorem tsdb_purge_exact:
  assumes "stored_ok (L, w)" and "0 \<le> wall w (wall_reads w) - days * 86400 * 1000000000"
  shows "fst (tsdb_query L dev (-1) (snd (tsdb_purge_older_than L days w))) =
      filter (\<lambda>d. wall w (wall_reads w) - days * 86400 * 1000000000 \<le> pd_timestamp d)
        (fst (tsdb_query L dev (-1) w)) \<and>
    fst (tsdb_purge_older_than L days w) =
      int (length (rows (plc_readings w))) -
      int (length (rows (plc_readings (snd (tsdb_purge_older_than L days w)))))"
proof -
  let ?w = "snd (tsdb_purge_older_than L days w)"
  have ok: "stored_ok (L, ?w)" using sqlite.purge_ok [OF assms(1), of days] by simp
  have "fst (tsdb_purge_older_than L days w) + int (length (stored (L, ?w))) =
      int (length (stored (L, w)))"
    using sqlite.purge_count [OF assms(1), of days] by simp
  moreover have "stored (L, ?w) = filter (\<lambda>d. wall w (wall_reads w) - days * 86400 * 1000000000 \<le>
      pd_timestamp d) (stored (L, w))"
    using sqlite.purge_contents [of "(L, w)" days] assms by simp
  ultimately show ?thesis
    using sqlite.query_result [OF ok, of dev "-1"] sqlite.query_result [OF assms(1), of dev "-1"]
    by (simp add: sql_limit_def stored_def rev_filter conj_commute)
qed

theorem tsdb_purge_exact_witness:
  "stored_ok (sample_libs, sample_world) \<and>
   fst (tsdb_purge_older_than sample_libs 0 sample_world) = 0"
proof -
  have ok: "stored_ok (sample_libs, sample_world)"
    using stored_ok_empty [OF sample_parses sample_ordered sample_healthy] by simp
  moreover have "0 \<le> wall sample_world (wall_reads sample_world) - 0 * 86400 * 1000000000" by simp
  from tsdb_purge_exact [OF ok this]
  have "fst (tsdb_purge_older_than sample_libs 0 sample_world) = 0"
    by (simp add: tsdb_purge_older_than_def env_defs) (simp add: empty_table_def)
  ultimately show ?thesis by simp
qed



end
