(* ===== verification/Protocol.thy ===== *)
theory Protocol
  imports Alarms Batches Readings
begin

text \<open>
  The polling engine, \<open>server/src/protocol.rs\<close>. The trait object \<open>Box<dyn PlcProtocol>\<close> is a record
  of operations on a client state. One polling tick stores and broadcasts the registers, checks the
  alarm thresholds and tracks the batch state; a write command is forwarded to the client and
  answered. \<open>task_step\<close> is the life of a device task: connect, poll and write until the client
  reports that the connection is gone, wait, reconnect. The locale \<open>plc_protocol\<close> states what the
  task relies on in a client; the Modbus and OPC UA clients are its interpretations, in the theories
  \<open>Modbus\<close> and \<open>Opcua\<close>.
\<close>

section \<open>Thresholds\<close>

record alarm_threshold =
  th_register :: u16
  th_label :: string
  th_warn_high :: "f64 option"
  th_crit_high :: "f64 option"
  th_warn_low :: "f64 option"
  th_crit_low :: "f64 option"

definition alarm_thresholds :: "alarm_threshold list" where
  "alarm_thresholds =
     [\<lparr>th_register = 1028, th_label = ''Temperature'', th_warn_high = Some 85,
       th_crit_high = Some 100, th_warn_low = None, th_crit_low = None\<rparr>,
      \<lparr>th_register = 1029, th_label = ''Pressure'', th_warn_high = Some 1200,
       th_crit_high = Some 1400, th_warn_low = None, th_crit_low = None\<rparr>]"

definition BATCH_IDLE :: u16 where "BATCH_IDLE = 0"
definition BATCH_HEATING :: u16 where "BATCH_HEATING = 1"
definition BATCH_COMPLETE :: u16 where "BATCH_COMPLETE = 4"

definition batch_phase_name :: "u16 \<Rightarrow> string" where
  "batch_phase_name code = (if code = 0 then ''Idle'' else if code = 1 then ''Heating''
     else if code = 2 then ''Holding'' else if code = 3 then ''Cooling''
     else if code = 4 then ''Complete'' else ''Unknown'')"

section \<open>One polling tick\<close>

text \<open>\<open>serde_json::to_string(&data)\<close>.\<close>
definition plc_data_json :: "libs \<Rightarrow> plc_data \<Rightarrow> string" where
  "plc_data_json L d = json_text L (JObj [(''device_id'', JStr (pd_device_id d)),
     (''register'', JInt (uint (pd_register d))), (''value'', JReal (pd_value d)),
     (''timestamp'', JStr (json_time L (pd_timestamp d)))])"

text \<open>
  The loop over \<open>registers.iter().enumerate()\<close>, from index \<open>i\<close>: fill the register map, save the
  reading, broadcast it. Register addresses wrap at 16 bits, as in the release build.
\<close>
fun store_registers ::
    "libs \<Rightarrow> device_config \<Rightarrow> nat \<Rightarrow> u16 list \<Rightarrow> (u16 \<rightharpoonup> f64) \<Rightarrow> string list \<Rightarrow> world \<Rightarrow>
     (u16 \<rightharpoonup> f64) \<times> string list \<times> world" where
  "store_registers L dev i [] reg_map tx w = (reg_map, tx, w)"
| "store_registers L dev i (value # registers) reg_map tx w =
     (let reg_addr = dc_register_start dev + of_nat i;
          reg_map = reg_map(reg_addr \<mapsto> u16_as_f64 value);
          (now, w) = utc_now w;
          d = \<lparr>pd_device_id = dc_id dev, pd_register = reg_addr, pd_value = u16_as_f64 value,
               pd_timestamp = now\<rparr>;
          w = save_plc_data L d w
      in store_registers L dev (Suc i) registers reg_map (tx @ [plc_data_json L d]) w)"

definition critical_request :: "device_config \<Rightarrow> alarm_threshold \<Rightarrow> f64 \<Rightarrow> f64 \<Rightarrow> raise_alarm_request"
  where
  "critical_request dev th val crit = \<lparr>ra_device_id = dc_id dev, ra_register = th_register th,
     ra_label = th_label th, ra_priority = Critical, ra_value = val, ra_threshold = crit,
     ra_message = ''CRITICAL: '' @ th_label th @ '' '' @ show_fixed 1 val @ '' exceeds '' @
       show_fixed 0 crit\<rparr>"

definition warning_request :: "device_config \<Rightarrow> alarm_threshold \<Rightarrow> f64 \<Rightarrow> f64 \<Rightarrow> raise_alarm_request"
  where
  "warning_request dev th val warn = \<lparr>ra_device_id = dc_id dev, ra_register = th_register th,
     ra_label = th_label th, ra_priority = High, ra_value = val, ra_threshold = warn,
     ra_message = ''WARNING: '' @ th_label th @ '' '' @ show_fixed 1 val @
       '' approaching limit ('' @ show_fixed 0 warn @ '')''\<rparr>"

text \<open>\<open>val < w * 0.95\<close> and \<open>val > w * 1.05\<close>, true where the threshold has no such limit.\<close>
definition back_to_safe :: "alarm_threshold \<Rightarrow> f64 \<Rightarrow> bool" where
  "back_to_safe th val \<longleftrightarrow>
     (case th_warn_high th of None \<Rightarrow> True | Some w \<Rightarrow> val < w * 0.95) \<and>
     (case th_warn_low th of None \<Rightarrow> True | Some w \<Rightarrow> w * 1.05 < val)"

definition check_threshold ::
    "libs \<Rightarrow> device_config \<Rightarrow> (u16 \<rightharpoonup> f64) \<Rightarrow> alarm_threshold \<Rightarrow> world \<Rightarrow> world" where
  "check_threshold L dev reg_map th w =
     (case reg_map (th_register th) of None \<Rightarrow> w
      | Some val \<Rightarrow>
        (let (has_alarm, w) = has_active_alarm (dc_id dev) (th_register th) w;
             w = (case th_crit_high th of
                Some crit \<Rightarrow>
                  if val \<ge> crit \<and> \<not> has_alarm
                  then snd (raise_alarm L (critical_request dev th val crit) w) else w
              | None \<Rightarrow>
                 (case th_warn_high th of
                    Some warn \<Rightarrow>
                      if val \<ge> warn \<and> \<not> has_alarm
                      then snd (raise_alarm L (warning_request dev th val warn) w) else w
                  | None \<Rightarrow> w))
         in if has_alarm then
              (if back_to_safe th val then
                 (case get_active_alarm_id (dc_id dev) (th_register th) w of
                    (Some i, w) \<Rightarrow> snd (clear_alarm L i w)
                  | (None, w) \<Rightarrow> w)
               else w)
            else w))"

definition monitor_alarms :: "libs \<Rightarrow> device_config \<Rightarrow> (u16 \<rightharpoonup> f64) \<Rightarrow> world \<Rightarrow> world" where
  "monitor_alarms L dev reg_map w = fold (check_threshold L dev reg_map) alarm_thresholds w"

record batch_track =
  prev_batch_state :: "u16 option"
  batch_counter :: u32

definition batch_id_text :: "string \<Rightarrow> u32 \<Rightarrow> string" where
  "batch_id_text dev n = ''BATCH-'' @ dev @ ''-'' @ show_padded 4 (unat n)"

definition track_batch ::
    "libs \<Rightarrow> device_config \<Rightarrow> (u16 \<rightharpoonup> f64) \<Rightarrow> batch_track \<Rightarrow> world \<Rightarrow> batch_track \<times> world" where
  "track_batch L dev reg_map b w =
     (case reg_map 1032 of None \<Rightarrow> (b, w)
      | Some batch_val \<Rightarrow>
        (let batch_state = f64_as_u16 batch_val;
             prev = (case prev_batch_state b of None \<Rightarrow> batch_state | Some p \<Rightarrow> p);
             (b, w) =
               (if prev = BATCH_IDLE \<and> batch_state = BATCH_HEATING
                then (let n = batch_counter b + 1 in
                  (b\<lparr>batch_counter := n\<rparr>,
                   snd (create_batch L (batch_id_text (dc_id dev) n) ''Reactor Cycle'' (dc_id dev)
                     ''system'' w)))
                else (b, w));
             w = (if prev \<noteq> BATCH_COMPLETE \<and> batch_state = BATCH_COMPLETE
                  then (case get_running_batch (dc_id dev) w of
                     (Some (_, batch_id), w) \<Rightarrow>
                       snd (update_batch_status L batch_id ''completed'' None w)
                   | (None, w) \<Rightarrow> w)
                  else w);
             w = (if prev \<noteq> BATCH_IDLE \<and> prev \<noteq> BATCH_COMPLETE \<and> batch_state = BATCH_IDLE
                  then (case get_running_batch (dc_id dev) w of
                     (Some (_, batch_id), w) \<Rightarrow>
                       snd (update_batch_status L batch_id ''aborted'' (Some ''Emergency stop'') w)
                   | (None, w) \<Rightarrow> w)
                  else w)
         in (b\<lparr>prev_batch_state := Some batch_state\<rparr>, w)))"

text \<open>What a tick does with the registers it has read.\<close>
definition process_registers ::
    "libs \<Rightarrow> device_config \<Rightarrow> u16 list \<Rightarrow> batch_track \<Rightarrow> string list \<Rightarrow> world \<Rightarrow>
     batch_track \<times> string list \<times> world" where
  "process_registers L dev registers b tx w =
     (let (reg_map, tx, w) = store_registers L dev 0 registers Map.empty tx w;
          w = monitor_alarms L dev reg_map w;
          (b, w) = track_batch L dev reg_map b w
      in (b, tx, w))"

section \<open>The device task\<close>

text \<open>The methods of the trait \<open>PlcProtocol\<close>.\<close>
record 'c plc_ops =
  plc_connect :: "'c \<Rightarrow> unit result \<times> 'c"
  plc_read :: "u16 \<Rightarrow> u16 \<Rightarrow> 'c \<Rightarrow> u16 list result \<times> 'c"
  plc_write :: "u16 \<Rightarrow> u16 \<Rightarrow> 'c \<Rightarrow> unit result \<times> 'c"
  plc_is_connected :: "'c \<Rightarrow> bool"
  plc_name :: "'c \<Rightarrow> string"

text \<open>
  Where the task is: about to connect, in the poll and write loop, in the five-second pause, or
  panicked (a timer with a period of zero panics).
\<close>
datatype phase = Connecting | Polling | Pausing | Panicked

record 'c task =
  tk_client :: 'c
  tk_phase :: phase
  tk_track :: batch_track
  tk_tx :: "string list"
  tk_replies :: "unit result list"
  tk_world :: world

definition start_task :: "'c \<Rightarrow> world \<Rightarrow> 'c task" where
  "start_task c w = \<lparr>tk_client = c, tk_phase = Connecting,
     tk_track = \<lparr>prev_batch_state = None, batch_counter = 0\<rparr>, tk_tx = [], tk_replies = [],
     tk_world = w\<rparr>"

definition on_connect :: "'c plc_ops \<Rightarrow> device_config \<Rightarrow> 'c task \<Rightarrow> 'c task" where
  "on_connect ops dev s =
     (case plc_connect ops (tk_client s) of
        (Inr _, c) \<Rightarrow> s\<lparr>tk_client := c,
           tk_phase := (if dc_poll_rate_ms dev = 0 then Panicked else Polling)\<rparr>
      | (Inl _, c) \<Rightarrow> s\<lparr>tk_client := c, tk_phase := Pausing\<rparr>)"

definition on_write :: "'c plc_ops \<Rightarrow> u16 \<Rightarrow> u16 \<Rightarrow> 'c task \<Rightarrow> 'c task" where
  "on_write ops reg val s =
     (case plc_write ops reg val (tk_client s) of
        (Inr _, c) \<Rightarrow> s\<lparr>tk_client := c, tk_replies := tk_replies s @ [Inr ()]\<rparr>
      | (Inl e, c) \<Rightarrow> s\<lparr>tk_client := c, tk_replies := tk_replies s @ [Inl e],
           tk_phase := (if plc_is_connected ops c then tk_phase s else Pausing)\<rparr>)"

definition on_tick :: "libs \<Rightarrow> 'c plc_ops \<Rightarrow> device_config \<Rightarrow> 'c task \<Rightarrow> 'c task" where
  "on_tick L ops dev s =
     (case plc_read ops (dc_register_start dev) (dc_register_count dev) (tk_client s) of
        (Inr registers, c) \<Rightarrow>
          (let (b, tx, w) = process_registers L dev registers (tk_track s) (tk_tx s) (tk_world s)
           in s\<lparr>tk_client := c, tk_track := b, tk_tx := tx, tk_world := w\<rparr>)
      | (Inl e, c) \<Rightarrow> s\<lparr>tk_client := c,
           tk_phase := (if plc_is_connected ops c then tk_phase s else Pausing)\<rparr>)"

datatype task_event = Attempt | Write u16 u16 | Tick | Resume

text \<open>
  One step of the task. Between the steps other tasks and the request handlers may change the
  database: \<open>w\<close> is whatever world the step finds.
\<close>
inductive task_step ::
    "libs \<Rightarrow> 'c plc_ops \<Rightarrow> device_config \<Rightarrow> 'c task \<Rightarrow> task_event \<Rightarrow> 'c task \<Rightarrow> bool"
  for L ops dev where
  do_attempt: "tk_phase s = Connecting \<Longrightarrow>
     task_step L ops dev s Attempt (on_connect ops dev (s\<lparr>tk_world := w\<rparr>))"
| do_write: "tk_phase s = Polling \<Longrightarrow>
     task_step L ops dev s (Write reg val) (on_write ops reg val (s\<lparr>tk_world := w\<rparr>))"
| do_tick: "tk_phase s = Polling \<Longrightarrow>
     task_step L ops dev s Tick (on_tick L ops dev (s\<lparr>tk_world := w\<rparr>))"
| do_resume: "tk_phase s = Pausing \<Longrightarrow>
     task_step L ops dev s Resume (s\<lparr>tk_phase := Connecting, tk_world := w\<rparr>)"

inductive task_run ::
    "libs \<Rightarrow> 'c plc_ops \<Rightarrow> device_config \<Rightarrow> 'c task \<Rightarrow> task_event list \<Rightarrow> 'c task \<Rightarrow> bool"
  for L ops dev where
  run_none: "task_run L ops dev s [] s"
| run_more: "task_run L ops dev s es t \<Longrightarrow> task_step L ops dev t e u \<Longrightarrow>
     task_run L ops dev s (es @ [e]) u"

section \<open>What a tick stores and broadcasts\<close>

text \<open>The readings of a tick, as values: register \<open>start + i\<close> holds the \<open>i\<close>-th value.\<close>
definition tick_data :: "device_config \<Rightarrow> nat \<Rightarrow> u16 list \<Rightarrow> world \<Rightarrow> plc_data list" where
  "tick_data dev i registers w = map (\<lambda>k. \<lparr>pd_device_id = dc_id dev,
     pd_register = dc_register_start dev + of_nat (i + k), pd_value = u16_as_f64 (registers ! k),
     pd_timestamp = wall w (wall_reads w + k)\<rparr>) [0..<length registers]"

lemma tick_data_simps [simp]:
  "tick_data dev i [] w = []"
  "tick_data dev i (v # vs) w = \<lparr>pd_device_id = dc_id dev,
      pd_register = dc_register_start dev + of_nat i, pd_value = u16_as_f64 v,
      pd_timestamp = wall w (wall_reads w)\<rparr> #
     tick_data dev (Suc i) vs (w\<lparr>wall_reads := wall_reads w + 1\<rparr>)"
  unfolding tick_data_def by (simp_all add: upt_conv_Cons map_Suc_upt [symmetric] o_def del: upt_Suc)

lemma length_tick_data [simp]: "length (tick_data dev i vs w) = length vs"
  by (simp add: tick_data_def)

lemma only_readings_trans: "only_readings a b \<Longrightarrow> only_readings b c \<Longrightarrow> only_readings a c"
  by (cases a, cases b, cases c) (simp add: only_readings_def)

lemma only_readings_now: "only_readings w (w\<lparr>wall_reads := n\<rparr>)"
  by (simp add: only_readings_def)

lemma save_plc_data_reads [simp]: "wall_reads (save_plc_data L d w) = wall_reads w"
  by (simp add: save_plc_data_def env_defs Let_def split: option.split)

lemma tick_data_saved [simp]:
  "tick_data dev i vs (save_plc_data L d w) = tick_data dev i vs w"
  by (simp add: tick_data_def)

lemma store_registers_frame:
  "only_readings w (snd (snd (store_registers L dev i vs m tx w)))"
proof (induction vs arbitrary: i m tx w)
  case (Cons v vs)
  show ?case
    by (simp add: utc_now_def Let_def)
      (rule only_readings_trans [OF only_readings_trans [OF only_readings_now only_readings_ops(4)]
         Cons.IH])
qed (simp add: only_readings_refl)

lemmas store_registers_world [simp] = store_registers_frame [THEN only_readingsD(1)]
  store_registers_frame [THEN only_readingsD(2)] store_registers_frame [THEN only_readingsD(3)]
  store_registers_frame [THEN only_readingsD(4)] store_registers_frame [THEN only_readingsD(5)]
  store_registers_frame [THEN only_readingsD(6)] store_registers_frame [THEN only_readingsD(7)]
  store_registers_frame [THEN only_readingsD(14)]

lemma store_registers_tx:
  "fst (snd (store_registers L dev i vs m tx w)) =
     tx @ map (plc_data_json L) (tick_data dev i vs w)"
proof (induction vs arbitrary: i m tx w)
  case (Cons v vs)
  show ?case
    by (simp add: utc_now_def Let_def Cons.IH)
qed simp

definition insert_reading :: "libs \<Rightarrow> plc_data \<Rightarrow> reading_row table \<Rightarrow> reading_row table" where
  "insert_reading L d t = snd (tbl_insert (reading_columns (columns_of_data L d)) t)"

lemma store_registers_rows:
  assumes "healthy w"
  shows "plc_readings (snd (snd (store_registers L dev i vs m tx w))) =
     fold (insert_reading L) (tick_data dev i vs w) (plc_readings w)"
  using assms
proof (induction vs arbitrary: i m tx w)
  case (Cons v vs)
  let ?d = "\<lparr>pd_device_id = dc_id dev, pd_register = dc_register_start dev + of_nat i,
    pd_value = u16_as_f64 v, pd_timestamp = wall w (wall_reads w)\<rparr>"
  let ?w = "save_plc_data L ?d (w\<lparr>wall_reads := wall_reads w + 1\<rparr>)"
  have "healthy ?w" using Cons.prems by simp
  moreover have "plc_readings ?w = insert_reading L ?d (plc_readings w)"
    using Cons.prems by (simp add: save_plc_data_def env_defs Let_def insert_reading_def)
  ultimately show ?case
    by (simp add: utc_now_def Let_def Cons.IH)
qed simp

text \<open>The register map: the last of the values whose (wrapped) address is the register's.\<close>
fun reg_map_of :: "u16 \<Rightarrow> nat \<Rightarrow> u16 list \<Rightarrow> (u16 \<rightharpoonup> f64) \<Rightarrow> u16 \<rightharpoonup> f64" where
  "reg_map_of start i [] m = m"
| "reg_map_of start i (v # vs) m = reg_map_of start (Suc i) vs (m(start + of_nat i \<mapsto> u16_as_f64 v))"

lemma store_registers_map:
  "fst (store_registers L dev i vs m tx w) = reg_map_of (dc_register_start dev) i vs m"
  by (induction vs arbitrary: i m tx w) (simp_all add: utc_now_def Let_def)

lemma reg_map_of_append:
  "reg_map_of s i (vs @ [v]) m = (reg_map_of s i vs m)(s + of_nat (i + length vs) \<mapsto> u16_as_f64 v)"
  by (induction vs arbitrary: i m) (simp_all add: ac_simps)

lemma reg_map_of_at:
  assumes "k < length vs" and "length vs \<le> 65536"
  shows "reg_map_of s 0 vs Map.empty (s + of_nat k) = Some (u16_as_f64 (vs ! k))"
  using assms
proof (induction vs rule: rev_induct)
  case (snoc v vs)
  show ?case
  proof (cases "k = length vs")
    case True
    then show ?thesis by (simp add: reg_map_of_append)
  next
    case False
    with snoc.prems have lt: "k < length vs" by simp
    have "(of_nat k :: u16) \<noteq> of_nat (length vs)"
      using lt snoc.prems by (simp add: word_of_nat_eq_iff take_bit_nat_eq_self)
    with snoc lt show ?thesis by (simp add: reg_map_of_append nth_append)
  qed
qed simp


section \<open>Alarm monitoring\<close>

text \<open>The unresolved alarms of a register, oldest first.\<close>
definition unresolved :: "string \<Rightarrow> u16 \<Rightarrow> world \<Rightarrow> alarm_row list" where
  "unresolved dev reg w = filter (unresolved_on dev reg) (rows (alarms w))"

lemma only_alarms_refl: "only_alarms w w"
  by (simp add: only_alarms_def)

lemma only_alarms_trans: "only_alarms a b \<Longrightarrow> only_alarms b c \<Longrightarrow> only_alarms a c"
  by (cases a, cases b, cases c) (simp add: only_alarms_def)

text \<open>The alarm a value asks for, and the tick's work on a register as three cases.\<close>
definition alarm_to_raise ::
    "device_config \<Rightarrow> alarm_threshold \<Rightarrow> f64 \<Rightarrow> raise_alarm_request option" where
  "alarm_to_raise dev th v =
     (case th_crit_high th of
        Some crit \<Rightarrow> if v \<ge> crit then Some (critical_request dev th v crit) else None
      | None \<Rightarrow> (case th_warn_high th of
          Some warn \<Rightarrow> if v \<ge> warn then Some (warning_request dev th v warn) else None
        | None \<Rightarrow> None))"

definition clear_newest :: "libs \<Rightarrow> string \<Rightarrow> u16 \<Rightarrow> world \<Rightarrow> world" where
  "clear_newest L dev reg w =
     (let w' = snd (get_active_alarm_id dev reg w) in
      case fst (get_active_alarm_id dev reg w) of
        Some i \<Rightarrow> snd (clear_alarm L i w') | None \<Rightarrow> w')"

lemma check_threshold_cases:
  "check_threshold L dev m th w =
     (case m (th_register th) of None \<Rightarrow> w
      | Some v \<Rightarrow>
         if fst (has_active_alarm (dc_id dev) (th_register th) w) then
           (if back_to_safe th v
            then clear_newest L (dc_id dev) (th_register th)
              (snd (has_active_alarm (dc_id dev) (th_register th) w))
            else snd (has_active_alarm (dc_id dev) (th_register th) w))
         else (case alarm_to_raise dev th v of
             None \<Rightarrow> snd (has_active_alarm (dc_id dev) (th_register th) w)
           | Some req \<Rightarrow> snd (raise_alarm L req
               (snd (has_active_alarm (dc_id dev) (th_register th) w)))))"
  by (cases "has_active_alarm (dc_id dev) (th_register th) w")
    (simp add: check_threshold_def alarm_to_raise_def clear_newest_def Let_def
      split: option.split prod.split)

lemma only_alarms_clear_newest: "only_alarms w (clear_newest L dev reg w)"
  by (auto simp: clear_newest_def Let_def split: option.split
      intro: only_alarms_trans only_alarms_ops)

lemma check_threshold_frame: "only_alarms w (check_threshold L dev m th w)"
  by (auto simp: check_threshold_cases split: option.split
      intro: only_alarms_refl only_alarms_ops only_alarms_trans [OF only_alarms_ops(2)]
        only_alarms_clear_newest)

lemma monitor_alarms_frame: "only_alarms w (monitor_alarms L dev m w)"
  by (simp add: monitor_alarms_def alarm_thresholds_def)
    (rule only_alarms_trans [OF check_threshold_frame check_threshold_frame])

lemmas monitor_alarms_world [simp] = monitor_alarms_frame [THEN only_alarmsD(1)]
  monitor_alarms_frame [THEN only_alarmsD(2)] monitor_alarms_frame [THEN only_alarmsD(3)]
  monitor_alarms_frame [THEN only_alarmsD(4)] monitor_alarms_frame [THEN only_alarmsD(5)]
  monitor_alarms_frame [THEN only_alarmsD(6)] monitor_alarms_frame [THEN only_alarmsD(8)]
  monitor_alarms_frame [THEN only_alarmsD(15)]

lemmas check_threshold_world [simp] = check_threshold_frame [THEN only_alarmsD(8)]
  check_threshold_frame [THEN only_alarmsD(15)]

lemma fst_has_active_alarm:
  "healthy w \<Longrightarrow> fst (has_active_alarm dev reg w) \<longleftrightarrow> unresolved dev reg w \<noteq> []"
  by (simp add: has_active_alarm_def env_defs Let_def unresolved_def)

lemma fst_get_active_alarm_id:
  assumes "healthy w" and "tbl_ok al_id (alarms w)"
  shows "fst (get_active_alarm_id dev reg w) =
    (if unresolved dev reg w = [] then None else Some (al_id (last (unresolved dev reg w))))"
proof -
  have "order_desc al_id (filter (unresolved_on dev reg) (rows (alarms w))) =
      rev (unresolved dev reg w)"
    using assms(2) by (simp add: order_desc_rows unresolved_def)
  with assms(1) show ?thesis
    by (cases "unresolved dev reg w" rule: rev_cases)
      (simp_all add: get_active_alarm_id_def env_defs Let_def sql_limit_def)
qed

lemma unresolved_raise:
  assumes "healthy w"
  shows "unresolved dev reg (snd (raise_alarm L req w)) = unresolved dev reg w @
    (if ra_device_id req = dev \<and> ra_register req = reg
     then [alarm_columns (req, now_text L w) (seq (alarms w) + 1)] else [])"
  using assms by (simp add: unresolved_def raise_alarm_table unresolved_on_def uint_eq_iff)

lemma filter_id_butlast:
  assumes "distinct (map k xs)" and "xs \<noteq> []"
  shows "filter (\<lambda>r. k r \<noteq> k (last xs)) xs = butlast xs"
  using assms by (cases xs rule: rev_cases) (auto simp: filter_id_conv image_iff)

lemma unresolved_clear:
  assumes "healthy w"
  shows "unresolved dev reg (snd (clear_alarm L i w)) =
    filter (\<lambda>r. al_id r \<noteq> i) (unresolved dev reg w)"
proof -
  let ?f = "\<lambda>r. r\<lparr>al_state := ''cleared'', al_cleared_at := Some (now_text L w)\<rparr>"
  have "filter (unresolved_on dev reg)
      (map (\<lambda>r. if al_id r = i \<and> al_state r \<noteq> ''cleared'' then ?f r else r) xs) =
    filter (\<lambda>r. al_id r \<noteq> i) (filter (unresolved_on dev reg) xs)" for xs
    by (induction xs) (auto simp: unresolved_on_def)
  then show ?thesis
    using assms by (simp add: unresolved_def clear_alarm_table)
qed

lemma unresolved_query [simp]:
  "unresolved dev reg (snd (has_active_alarm d r w)) = unresolved dev reg w"
  "unresolved dev reg (snd (get_active_alarm_id d r w)) = unresolved dev reg w"
  by (simp_all add: unresolved_def)

lemma unresolved_distinct:
  "tbl_ok al_id (alarms w) \<Longrightarrow> distinct (map al_id (unresolved dev reg w))"
  unfolding unresolved_def by (rule distinct_map_filter [OF tbl_ok_distinct])

lemma unresolved_other_id:
  assumes "tbl_ok al_id (alarms w)" and "a \<in> set (unresolved dev reg w)"
    and "(dev', reg') \<noteq> (dev, reg)"
  shows "filter (\<lambda>r. al_id r \<noteq> al_id a) (unresolved dev' reg' w) = unresolved dev' reg' w"
proof -
  have "al_id r \<noteq> al_id a" if "r \<in> set (unresolved dev' reg' w)" for r
  proof
    assume "al_id r = al_id a"
    then have "r = a"
      using tbl_ok_unique [OF assms(1)] that assms(2) by (auto simp: unresolved_def)
    with that assms(2,3) show False by (auto simp: unresolved_def unresolved_on_def uint_eq_iff)
  qed
  then show ?thesis by (simp add: filter_id_conv)
qed

lemma unresolved_clear_newest:
  assumes "healthy w" and "tbl_ok al_id (alarms w)"
  shows "unresolved dev' reg' (clear_newest L dev reg w) =
    (if (dev', reg') = (dev, reg) then butlast (unresolved dev reg w)
     else unresolved dev' reg' w)"
proof (cases "unresolved dev reg w = []")
  case True
  then show ?thesis
    using assms by (auto simp: clear_newest_def fst_get_active_alarm_id)
next
  case False
  let ?a = "last (unresolved dev reg w)"
  have "unresolved dev' reg' (clear_newest L dev reg w) =
      filter (\<lambda>r. al_id r \<noteq> al_id ?a) (unresolved dev' reg' w)"
    using False assms by (simp add: clear_newest_def fst_get_active_alarm_id unresolved_clear)
  then show ?thesis
    using False unresolved_other_id [OF assms(2), of ?a dev reg dev' reg']
      filter_id_butlast [OF unresolved_distinct [OF assms(2)] False]
    by (cases "(dev', reg') = (dev, reg)") auto
qed

lemma alarm_to_raise_key:
  "alarm_to_raise dev th v = Some req \<Longrightarrow>
     ra_device_id req = dc_id dev \<and> ra_register req = th_register th"
  by (auto simp: alarm_to_raise_def critical_request_def warning_request_def
      split: option.splits if_splits)

text \<open>The abstract effect of a value \<open>v\<close> on the unresolved alarms of its register.\<close>
definition next_unresolved ::
    "libs \<Rightarrow> device_config \<Rightarrow> alarm_threshold \<Rightarrow> f64 \<Rightarrow> world \<Rightarrow> alarm_row list \<Rightarrow> alarm_row list"
  where
  "next_unresolved L dev th v w xs =
     (if xs = [] then (case alarm_to_raise dev th v of None \<Rightarrow> []
          | Some req \<Rightarrow> [alarm_columns (req, now_text L w) (seq (alarms w) + 1)])
      else if back_to_safe th v then butlast xs else xs)"

lemma has_active_alarm_reads [simp]:
  "wall_reads (snd (has_active_alarm dev reg w)) = wall_reads w"
  by (simp add: has_active_alarm_def env_defs Let_def)

lemma unresolved_check_threshold:
  assumes "healthy w" and "tbl_ok al_id (alarms w)"
  shows "unresolved dev' reg' (check_threshold L dev m th w) =
    (case m (th_register th) of None \<Rightarrow> unresolved dev' reg' w
     | Some v \<Rightarrow> if (dev', reg') = (dc_id dev, th_register th)
         then next_unresolved L dev th v w (unresolved dev' reg' w)
         else unresolved dev' reg' w)"
proof (cases "m (th_register th)")
  case (Some v)
  let ?w = "snd (has_active_alarm (dc_id dev) (th_register th) w)"
  show ?thesis
  proof (cases "unresolved (dc_id dev) (th_register th) w = []")
    case True
    then show ?thesis
      using Some assms(1) alarm_to_raise_key [of dev th v]
      by (auto simp: check_threshold_cases fst_has_active_alarm next_unresolved_def
          unresolved_raise split: option.split)
  next
    case False
    then show ?thesis
      using Some assms unresolved_clear_newest [of ?w dev' reg' L "dc_id dev" "th_register th"]
      by (auto simp: check_threshold_cases fst_has_active_alarm next_unresolved_def)
  qed
qed (simp add: check_threshold_cases)

text \<open>Whatever the alarm operations keep, a tick keeps.\<close>
lemma check_threshold_keeps:
  assumes "P (alarms w)"
    and step: "\<And>x w. P (alarms w) \<Longrightarrow> P (alarms (run_alarm_op L x w))"
  shows "P (alarms (check_threshold L dev m th w))"
proof -
  have "P (alarms (snd (raise_alarm L req v)))" if "P (alarms v)" for req v
    using step [where x = "Raise req" and w = v] that by simp
  moreover have "P (alarms (snd (clear_alarm L i v)))" if "P (alarms v)" for i v
    using step [where x = "Clear i" and w = v] that by simp
  ultimately show ?thesis
    using assms(1) by (auto simp: check_threshold_cases clear_newest_def Let_def split: option.split)
qed

lemma monitor_alarms_keeps:
  assumes "P (alarms w)" and "\<And>x w. P (alarms w) \<Longrightarrow> P (alarms (run_alarm_op L x w))"
  shows "P (alarms (monitor_alarms L dev m w))"
  using assms by (simp add: monitor_alarms_def alarm_thresholds_def check_threshold_keeps)

lemma monitor_alarms_ids_ok [keeps]:
  "tbl_ok al_id (alarms w) \<Longrightarrow> tbl_ok al_id (alarms (monitor_alarms L dev m w))"
  by (rule monitor_alarms_keeps) (auto intro: alarm_op_ids_ok)

lemma check_threshold_ids_ok [keeps]:
  "tbl_ok al_id (alarms w) \<Longrightarrow> tbl_ok al_id (alarms (check_threshold L dev m th w))"
  by (rule check_threshold_keeps) (auto intro: alarm_op_ids_ok)

lemma alarm_op_seq: "seq (alarms w) \<le> seq (alarms (run_alarm_op L x w))"
  by (cases x) (simp_all add: alarm_tables)

lemma check_threshold_seq: "seq (alarms w) \<le> seq (alarms (check_threshold L dev m th w))"
  by (rule check_threshold_keeps) (auto intro: order_trans [OF _ alarm_op_seq])

text \<open>The two monitored registers: the limit that raises and the value below which alarms clear.\<close>
definition monitored :: "u16 \<Rightarrow> f64 \<Rightarrow> f64 \<Rightarrow> bool" where
  "monitored reg crit safe \<longleftrightarrow> (reg, crit, safe) \<in> {(1028, 100, 80.75), (1029, 1400, 1140)}"

text \<open>How the unresolved alarms of a register answer a value; a new alarm has an id above \<open>n\<close>.\<close>
definition alarm_response ::
    "int \<Rightarrow> string \<Rightarrow> u16 \<Rightarrow> f64 \<Rightarrow> f64 \<Rightarrow> f64 \<Rightarrow> alarm_row list \<Rightarrow> alarm_row list \<Rightarrow> bool" where
  "alarm_response n dev reg crit safe v old new \<longleftrightarrow>
     (if old = [] then
        (if v \<ge> crit
         then (\<exists>r. new = [r] \<and> n < al_id r \<and> al_device_id r = dev \<and> al_register r = uint reg \<and>
           al_state r = ''active'' \<and> al_priority r = priority_as_i32 Critical \<and>
           al_value r = v \<and> al_threshold r = crit)
         else new = [])
      else if v < safe then new = butlast old
      else new = old)"

lemma next_unresolved_response:
  assumes "th \<in> set alarm_thresholds" and "monitored (th_register th) crit safe"
    and "dev = dc_id d" and "reg = th_register th" and "n \<le> seq (alarms w)"
  shows "alarm_response n dev reg crit safe v xs (next_unresolved L d th v w xs)"
  using assms
  by (auto simp: alarm_response_def alarm_thresholds_def monitored_def next_unresolved_def
      alarm_to_raise_def critical_request_def back_to_safe_def alarm_columns_def)

lemma monitor_alarms_response:
  assumes "healthy w" and "tbl_ok al_id (alarms w)" and "monitored reg crit safe"
    and "m reg = Some v"
  shows "alarm_response (seq (alarms w)) (dc_id dev) reg crit safe v (unresolved (dc_id dev) reg w)
    (unresolved (dc_id dev) reg (monitor_alarms L dev m w))"
proof -
  let ?t1 = "hd alarm_thresholds" and ?t2 = "last alarm_thresholds"
  let ?w = "check_threshold L dev m ?t1 w"
  have mon: "monitor_alarms L dev m w = check_threshold L dev m ?t2 ?w"
    by (simp add: monitor_alarms_def alarm_thresholds_def)
  have regs: "th_register ?t1 = 1028" "th_register ?t2 = 1029"
    and mem: "?t1 \<in> set alarm_thresholds" "?t2 \<in> set alarm_thresholds"
    by (simp_all add: alarm_thresholds_def)
  have ok: "healthy ?w" "tbl_ok al_id (alarms ?w)"
    using assms(1,2) by (simp_all add: check_threshold_ids_ok)
  have seq: "seq (alarms w) \<le> seq (alarms ?w)" by (rule check_threshold_seq)
  from assms(3) consider "reg = 1028" | "reg = 1029" by (auto simp: monitored_def)
  then show ?thesis
  proof cases
    case 1
    then have "unresolved (dc_id dev) reg (monitor_alarms L dev m w) =
        next_unresolved L dev ?t1 v w (unresolved (dc_id dev) reg w)"
      using assms(4) by (simp add: mon unresolved_check_threshold [OF ok]
          unresolved_check_threshold [OF assms(1,2)] regs split: option.split)
    then show ?thesis
      using next_unresolved_response [OF mem(1)] assms(3) 1 regs by simp
  next
    case 2
    then have "unresolved (dc_id dev) reg (monitor_alarms L dev m w) =
        next_unresolved L dev ?t2 v ?w (unresolved (dc_id dev) reg w)"
      using assms(4) by (simp add: mon unresolved_check_threshold [OF ok]
          unresolved_check_threshold [OF assms(1,2)] regs split: option.split)
    then show ?thesis
      using next_unresolved_response [OF mem(2)] assms(3) 2 regs seq by simp
  qed
qed

section \<open>The whole tick\<close>

text \<open>Batch tracking in three cases: the running batch starts, ends, or is aborted.\<close>
definition finish_running :: "libs \<Rightarrow> string \<Rightarrow> string \<Rightarrow> string option \<Rightarrow> world \<Rightarrow> world" where
  "finish_running L dev st notes w =
     (let w' = snd (get_running_batch dev w) in
      case fst (get_running_batch dev w) of
        Some (_, i) \<Rightarrow> snd (update_batch_status L i st notes w') | None \<Rightarrow> w')"

definition starts :: "u16 \<Rightarrow> u16 \<Rightarrow> bool" where
  "starts p s \<longleftrightarrow> p = BATCH_IDLE \<and> s = BATCH_HEATING"
definition completes :: "u16 \<Rightarrow> u16 \<Rightarrow> bool" where
  "completes p s \<longleftrightarrow> p \<noteq> BATCH_COMPLETE \<and> s = BATCH_COMPLETE"
definition aborts :: "u16 \<Rightarrow> u16 \<Rightarrow> bool" where
  "aborts p s \<longleftrightarrow> p \<noteq> BATCH_IDLE \<and> p \<noteq> BATCH_COMPLETE \<and> s = BATCH_IDLE"

lemmas batch_codes = starts_def completes_def aborts_def BATCH_IDLE_def BATCH_HEATING_def
  BATCH_COMPLETE_def

definition track_world :: "libs \<Rightarrow> string \<Rightarrow> u16 \<Rightarrow> u16 \<Rightarrow> u32 \<Rightarrow> world \<Rightarrow> world" where
  "track_world L dev p s n w =
     (if starts p s then
        snd (create_batch L (batch_id_text dev (n + 1)) ''Reactor Cycle'' dev ''system'' w)
      else if completes p s then finish_running L dev ''completed'' None w
      else if aborts p s then finish_running L dev ''aborted'' (Some ''Emergency stop'') w
      else w)"

definition prev_or :: "batch_track \<Rightarrow> u16 \<Rightarrow> u16" where
  "prev_or b s = (case prev_batch_state b of None \<Rightarrow> s | Some p \<Rightarrow> p)"

lemma track_batch_cases:
  "track_batch L dev m b w =
     (case m 1032 of None \<Rightarrow> (b, w)
      | Some v \<Rightarrow>
        (\<lparr>prev_batch_state = Some (f64_as_u16 v), batch_counter =
            (if starts (prev_or b (f64_as_u16 v)) (f64_as_u16 v) then batch_counter b + 1
             else batch_counter b)\<rparr>,
         track_world L (dc_id dev) (prev_or b (f64_as_u16 v)) (f64_as_u16 v) (batch_counter b) w))"
  by (cases b, cases "get_running_batch (dc_id dev) w")
    (auto simp: track_batch_def track_world_def prev_or_def finish_running_def Let_def batch_codes
      split: option.split prod.split)

lemma only_batches_refl: "only_batches w w"
  by (simp add: only_batches_def)

lemma only_batches_trans: "only_batches a b \<Longrightarrow> only_batches b c \<Longrightarrow> only_batches a c"
  by (cases a, cases b, cases c) (simp add: only_batches_def)

lemma only_batches_finish: "only_batches w (finish_running L dev st x w)"
  by (auto simp: finish_running_def Let_def split: option.split
      intro: only_batches_trans only_batches_ops)

lemma track_batch_frame: "only_batches w (snd (track_batch L dev m b w))"
  by (auto simp: track_batch_cases track_world_def split: option.split
      intro: only_batches_refl only_batches_ops only_batches_finish)

lemmas track_batch_world [simp] = track_batch_frame [THEN only_batchesD(1)]
  track_batch_frame [THEN only_batchesD(2)] track_batch_frame [THEN only_batchesD(3)]
  track_batch_frame [THEN only_batchesD(4)] track_batch_frame [THEN only_batchesD(5)]
  track_batch_frame [THEN only_batchesD(6)] track_batch_frame [THEN only_batchesD(7)]
  track_batch_frame [THEN only_batchesD(14)]

text \<open>The three parts of a tick, each on the tables it touches.\<close>
definition tick_map :: "device_config \<Rightarrow> u16 list \<Rightarrow> u16 \<rightharpoonup> f64" where
  "tick_map dev registers = reg_map_of (dc_register_start dev) 0 registers Map.empty"

lemma process_registers_parts:
  "process_registers L dev registers b tx w =
     (let w1 = snd (snd (store_registers L dev 0 registers Map.empty tx w));
          w2 = monitor_alarms L dev (tick_map dev registers) w1;
          r = track_batch L dev (tick_map dev registers) b w2
      in (fst r, tx @ map (plc_data_json L) (tick_data dev 0 registers w), snd r))"
  using store_registers_map [of L dev 0 registers Map.empty tx w]
    store_registers_tx [of L dev 0 registers Map.empty tx w]
  by (cases "store_registers L dev 0 registers Map.empty tx w")
    (simp add: process_registers_def tick_map_def Let_def split: prod.split)

lemma process_registers_readings:
  "healthy w \<Longrightarrow> plc_readings (snd (snd (process_registers L dev registers b tx w))) =
     fold (insert_reading L) (tick_data dev 0 registers w) (plc_readings w)"
  by (simp add: process_registers_parts Let_def store_registers_rows)

lemma process_registers_alarms:
  "alarms (snd (snd (process_registers L dev registers b tx w))) =
     alarms (monitor_alarms L dev (tick_map dev registers)
       (snd (snd (store_registers L dev 0 registers Map.empty tx w))))"
  by (simp add: process_registers_parts Let_def)

lemma process_registers_batches:
  "\<exists>v. batch_records v = batch_records w \<and> batch_steps v = batch_steps w \<and>
     healthy v = healthy w \<and>
     fst (process_registers L dev registers b tx w) =
       fst (track_batch L dev (tick_map dev registers) b v) \<and>
     snd (snd (process_registers L dev registers b tx w)) =
       snd (track_batch L dev (tick_map dev registers) b v)"
  by (rule exI [of _ "monitor_alarms L dev (tick_map dev registers)
       (snd (snd (store_registers L dev 0 registers Map.empty tx w)))"])
    (simp add: process_registers_parts Let_def)

lemma process_registers_world [simp]:
  "healthy (snd (snd (process_registers L dev registers b tx w))) = healthy w"
  by (simp add: process_registers_parts Let_def)

lemma tick_map_at:
  "k < length vs \<Longrightarrow> length vs \<le> 65536 \<Longrightarrow>
     tick_map dev vs (dc_register_start dev + of_nat k) = Some (u16_as_f64 (vs ! k))"
  by (simp add: tick_map_def reg_map_of_at)

lemma insert_readings_rows:
  "map (\<lambda>r. (rd_device_id r, rd_register r, rd_value r, rd_timestamp r))
     (rows (fold (insert_reading L) ds t)) =
   map (\<lambda>r. (rd_device_id r, rd_register r, rd_value r, rd_timestamp r)) (rows t) @
   map (columns_of_data L) ds"
  by (induction ds arbitrary: t)
    (simp_all add: insert_reading_def reading_columns_def split: prod.split)

text \<open>
  C19: a polling tick loses no reading. When it has read the registers, one row per register is
  appended to the readings, in order, with the device's id, the address (start plus index, wrapping
  at 16 bits), the value and the time it was handled, nothing stored before is touched, and one
  message per register is broadcast, in the same order.
\<close>
theorem tick_stores_readings:
  assumes "healthy w" and "process_registers L dev registers b tx w = (b', tx', w')"
  shows "\<exists>ds. ds = tick_data dev 0 registers w \<and>
     map (\<lambda>r. (rd_device_id r, rd_register r, rd_value r, rd_timestamp r)) (rows (plc_readings w')) =
       map (\<lambda>r. (rd_device_id r, rd_register r, rd_value r, rd_timestamp r)) (rows (plc_readings w)) @
       map (\<lambda>d. (dc_id dev, uint (pd_register d), pd_value d, to_rfc3339 L (pd_timestamp d))) ds \<and>
     map pd_register ds = map (\<lambda>k. dc_register_start dev + of_nat k) [0..<length registers] \<and>
     map pd_value ds = map u16_as_f64 registers \<and>
     tx' = tx @ map (plc_data_json L) ds"
proof -
  have "plc_readings w' = fold (insert_reading L) (tick_data dev 0 registers w) (plc_readings w)"
    using process_registers_readings [OF assms(1), of L dev registers b tx] assms(2) by simp
  moreover have "tx' = tx @ map (plc_data_json L) (tick_data dev 0 registers w)"
    using assms(2) by (simp add: process_registers_parts Let_def)
  moreover have "map (columns_of_data L) (tick_data dev 0 registers w) =
      map (\<lambda>d. (dc_id dev, uint (pd_register d), pd_value d, to_rfc3339 L (pd_timestamp d)))
        (tick_data dev 0 registers w)"
    by (simp add: columns_of_data_def tick_data_def)
  moreover have "map pd_value (tick_data dev 0 registers w) = map u16_as_f64 registers"
    by (rule nth_equalityI) (simp_all add: tick_data_def)
  ultimately show ?thesis
    by (simp add: insert_readings_rows) (simp add: tick_data_def)
qed

text \<open>
  C7: the alarm a tick raises or clears. For a monitored register, read as its \<open>k\<close>-th value: with no
  unresolved alarm on it, a value at or above the critical limit (100 for the temperature, 1400 for
  the pressure) raises exactly one active Critical alarm with that value and limit, and a smaller
  value raises nothing; with unresolved alarms, a value below 95 percent of the warning limit clears
  the newest of them, and any other value leaves them as they are.
\<close>
theorem tick_alarm_response:
  assumes "healthy w" and "tbl_ok al_id (alarms w)" and "monitored reg crit safe"
    and "k < length registers" and "length registers \<le> 65536"
    and "reg = dc_register_start dev + of_nat k"
  shows "alarm_response (seq (alarms w)) (dc_id dev) reg crit safe (u16_as_f64 (registers ! k))
    (unresolved (dc_id dev) reg w)
    (unresolved (dc_id dev) reg (snd (snd (process_registers L dev registers b tx w))))"
proof -
  let ?w = "snd (snd (store_registers L dev 0 registers Map.empty tx w))"
  have "healthy ?w" "tbl_ok al_id (alarms ?w)" using assms(1,2) by simp_all
  moreover have "tick_map dev registers reg = Some (u16_as_f64 (registers ! k))"
    using assms(4-6) by (simp add: tick_map_at)
  ultimately show ?thesis
    using monitor_alarms_response [of ?w reg crit safe "tick_map dev registers"] assms(3)
    by (simp add: unresolved_def process_registers_alarms)
qed

lemma sample_device_simps [simp]:
  "dc_id sample_device = ''plc-01''" "dc_register_start sample_device = 1028"
  by (simp_all add: sample_device_def)

definition plant_registers :: "u16 list" where
  "plant_registers = [105, 900, 0, 0, 1]"

theorem tick_stores_readings_witness:
  "map (\<lambda>r. (rd_register r, rd_value r)) (rows (plc_readings (snd (snd
     (process_registers sample_libs sample_device plant_registers
       \<lparr>prev_batch_state = None, batch_counter = 0\<rparr> [] sample_world))))) =
   [(1028, 105), (1029, 900), (1030, 0), (1031, 0), (1032, 1)]"
proof -
  obtain b' tx' w' where r: "process_registers sample_libs sample_device plant_registers
      \<lparr>prev_batch_state = None, batch_counter = 0\<rparr> [] sample_world = (b', tx', w')"
    by (metis surj_pair)
  have proj: "map (\<lambda>r. (rd_register r, rd_value r)) xs = map (\<lambda>(d, r, v, t). (r, v))
      (map (\<lambda>r. (rd_device_id r, rd_register r, rd_value r, rd_timestamp r)) xs)" for xs
    by simp
  show ?thesis
    using tick_stores_readings [OF sample_healthy r] unfolding proj r
    by (simp add: tick_data_def plant_registers_def empty_table_def upt_rec
        u16_as_f64_def)
qed

lemma sample_unresolved: "unresolved ''plc-01'' 1028 sample_alarm_world = [sample_row]"
  by (simp add: unresolved_def sample_alarm_table)
    (simp add: unresolved_on_def sample_row_def sample_alarm_def)

lemma sample_alarm_ids: "tbl_ok al_id (alarms sample_alarm_world)"
  using sample_alarm_world_ok by (simp add: alarms_ok_def)

theorem tick_alarm_response_witness:
  "alarm_response 1 ''plc-01'' 1028 100 80.75 105 [sample_row]
    (unresolved ''plc-01'' 1028 (snd (snd
      (process_registers sample_libs sample_device plant_registers
        \<lparr>prev_batch_state = None, batch_counter = 0\<rparr> [] sample_alarm_world))))"
proof -
  have "monitored 1028 100 80.75" by (simp add: monitored_def)
  from tick_alarm_response [OF sample_alarm_env(1) sample_alarm_ids this, where k = 0
      and dev = sample_device and registers = plant_registers]
  show ?thesis
    unfolding sample_device_simps sample_unresolved sample_alarm_table
    by (simp add: plant_registers_def u16_as_f64_def)
qed

definition not_critical :: "alarm_row \<Rightarrow> bool" where
  "not_critical r \<longleftrightarrow> al_priority r \<noteq> priority_as_i32 Critical"

text \<open>
  The polling loop never raises a warning. Whatever the values, whichever statements fail, a
  tick adds no alarm of a priority other than Critical: the branch for the warning limit comes after
  \<open>else\<close> of a critical limit that both thresholds have, so a value between the two limits is silent.
\<close>
theorem tick_never_warns:
  "map al_id (filter not_critical
      (rows (alarms (snd (snd (process_registers L dev registers b tx w)))))) =
   map al_id (filter not_critical (rows (alarms w)))"
proof -
  let ?low = "\<lambda>w. map al_id (filter not_critical (rows (alarms w)))"
  have upd: "map al_id (filter not_critical (map (\<lambda>r. if P r then
      r\<lparr>al_state := a, al_cleared_at := c\<rparr> else r) xs)) =
    map al_id (filter not_critical xs)" for P a c xs
    by (induction xs) (auto simp: not_critical_def)
  have clear: "?low (snd (clear_alarm L i v)) = ?low v" for i v
    by (simp add: clear_alarm_table upd)
  have raise: "?low (snd (raise_alarm L req v)) = ?low v" if "ra_priority req = Critical" for req v
    using that by (simp add: raise_alarm_table not_critical_def)
  have crit: "ra_priority req = Critical"
    if "th \<in> set alarm_thresholds" "alarm_to_raise dev th x = Some req" for th x req
    using that by (auto simp: alarm_thresholds_def alarm_to_raise_def critical_request_def
        split: if_splits)
  have "?low (check_threshold L dev m th v) = ?low v" if "th \<in> set alarm_thresholds" for m th v
    using crit [OF that] by (auto simp: check_threshold_cases clear_newest_def Let_def clear raise
        split: option.split)
  then have "?low (monitor_alarms L dev m v) = ?low v" for m v
    by (simp add: monitor_alarms_def alarm_thresholds_def)
  then show ?thesis by (simp add: process_registers_alarms)
qed

text \<open>What happens to the alarms while the server runs, shelving and un-shelving left out.\<close>
datatype monitor_event =
    Polled device_config "u16 \<rightharpoonup> f64"
  | Acked int string "string option"
  | ClearedBy int

fun run_monitor :: "libs \<Rightarrow> monitor_event \<Rightarrow> world \<Rightarrow> world" where
  "run_monitor L (Polled dev m) w = monitor_alarms L dev m w"
| "run_monitor L (Acked i u c) w = snd (ack_alarm L i u c w)"
| "run_monitor L (ClearedBy i) w = snd (clear_alarm L i w)"

definition at_most_one :: "world \<Rightarrow> bool" where
  "at_most_one w \<longleftrightarrow> (\<forall>dev reg. length (unresolved dev reg w) \<le> 1)"

lemma length_unresolved_ack:
  "length (unresolved dev reg (snd (ack_alarm L i u c w))) \<le> length (unresolved dev reg w)"
  if "tbl_ok al_id (alarms w)"
proof (cases "is_ok (fst (ack_alarm L i u c w))")
  case True
  let ?f = "\<lambda>r. r\<lparr>al_state := ''acknowledged'', al_acked_by := Some u,
     al_acked_at := Some (now_text L w), al_message := al_message r @ ack_comment c\<rparr>"
  from True obtain r where r: "alarm_with_id i w = Some r" "al_state r = ''active''"
    by (auto simp: ack_alarm_ok_iff)
  have "al_state q = ''active''" if "q \<in> set (rows (alarms w))" "al_id q = i" for q
    using alarm_with_id_unique [OF \<open>tbl_ok al_id (alarms w)\<close> r(1)] that r(2) by simp
  then have "length (filter (unresolved_on dev reg) (map (\<lambda>r. if al_id r = i then ?f r else r) xs)) =
      length (filter (unresolved_on dev reg) xs)" if "set xs \<subseteq> set (rows (alarms w))" for xs
    using that by (induction xs) (auto simp: unresolved_on_def)
  then show ?thesis using True by (simp add: unresolved_def ack_alarm_table)
qed (simp add: unresolved_def ack_alarm_table)

lemma next_unresolved_one: "length xs \<le> 1 \<Longrightarrow> length (next_unresolved L d th v w xs) \<le> 1"
  by (auto simp: next_unresolved_def split: option.split)

lemma check_threshold_one:
  "healthy w \<Longrightarrow> tbl_ok al_id (alarms w) \<Longrightarrow> at_most_one w \<Longrightarrow>
   at_most_one (check_threshold L dev m th w)"
  unfolding at_most_one_def
  by (simp add: unresolved_check_threshold split: option.split)
    (simp add: next_unresolved_one [unfolded One_nat_def])

lemma monitor_alarms_one:
  "healthy w \<Longrightarrow> tbl_ok al_id (alarms w) \<Longrightarrow> at_most_one w \<Longrightarrow>
   at_most_one (monitor_alarms L dev m w)"
  by (simp add: monitor_alarms_def alarm_thresholds_def check_threshold_one keeps)

lemma run_monitor_ok:
  assumes "healthy w" and "tbl_ok al_id (alarms w)" and "at_most_one w"
  shows "healthy (run_monitor L e w) \<and> tbl_ok al_id (alarms (run_monitor L e w)) \<and>
    at_most_one (run_monitor L e w)"
proof (cases e)
  case (Polled dev m)
  then show ?thesis using assms by (simp add: monitor_alarms_one keeps)
next
  case (Acked i u c)
  have "length (unresolved dev reg (snd (ack_alarm L i u c w))) \<le> 1" for dev reg
    using length_unresolved_ack [OF assms(2)] assms(3) le_trans unfolding at_most_one_def by blast
  then show ?thesis
    using Acked assms alarm_op_ids_ok [OF assms(2), of L "Ack i u c"] by (simp add: at_most_one_def)
next
  case (ClearedBy i)
  have "length (unresolved dev reg (snd (clear_alarm L i w))) \<le> 1" for dev reg
    using unresolved_clear [OF assms(1)] assms(3) length_filter_le le_trans
    unfolding at_most_one_def by metis
  then show ?thesis
    using ClearedBy assms alarm_op_ids_ok [OF assms(2), of L "Clear i"]
    by (simp add: at_most_one_def)
qed

text \<open>
  C17: no alarm floods. As long as nobody shelves an alarm, however many devices are polled with
  whatever values, and however operators acknowledge and the system clears, a register of a device
  never has two unresolved alarms at a time.
\<close>
theorem one_alarm_per_register:
  assumes "healthy w" and "tbl_ok al_id (alarms w)" and "at_most_one w"
  shows "at_most_one (fold (run_monitor L) events w)"
  using assms
proof (induction events arbitrary: w)
  case (Cons e events)
  from run_monitor_ok [OF Cons.prems] Cons.IH show ?case by simp
qed simp

theorem one_alarm_per_register_witness:
  "at_most_one (fold (run_monitor sample_libs)
     [Polled sample_device [1028 \<mapsto> 120], Acked 1 ''op'' None, Polled sample_device [1028 \<mapsto> 130]]
     sample_world)"
proof (rule one_alarm_per_register)
  show "tbl_ok al_id (alarms sample_world)" by simp
qed (simp_all add: at_most_one_def unresolved_def empty_table_def)

text \<open>
  C39: shelving an alarm does not keep it quiet. After an operator shelves the only unresolved alarm
  of a monitored register, the next tick that still reads a critical value raises a second alarm on
  that register, although the first is still shelved.
\<close>
theorem shelved_alarm_raised_again:
  assumes "healthy w" and "tbl_ok al_id (alarms w)" and "monitored reg crit safe"
    and "unresolved (dc_id dev) reg w = [r]" and "m reg = Some v" and "v \<ge> crit"
    and "w1 = snd (shelve_alarm L (al_id r) u mins reason w)"
    and "w2 = monitor_alarms L dev m w1"
  shows "map_option row_state (alarm_with_id (al_id r) w1) = Some Shelved \<and>
    (\<exists>r'. unresolved (dc_id dev) reg w2 = [r'] \<and> al_id r' \<noteq> al_id r)"
proof -
  have un: "r \<in> set (unresolved (dc_id dev) reg w)" using assms(4) by simp
  then have mem: "r \<in> set (rows (alarms w))" by (simp add: unresolved_def)
  then have r: "alarm_with_id (al_id r) w = Some r"
    using tbl_ok_find [OF assms(2)] by (simp add: alarm_with_id_def)
  have st: "al_state r \<noteq> ''cleared''" using un by (auto simp: unresolved_def unresolved_on_def)
  have fine: "is_ok (fst (shelve_alarm L (al_id r) u mins reason w))"
    using assms(1) r st by (simp add: shelve_alarm_ok_iff)
  note tab = shelve_alarm_table [of L "al_id r" u mins reason w, unfolded if_P [OF fine]]
  have shelved: "map_option row_state (alarm_with_id (al_id r) w1) = Some Shelved"
    using r unfolding assms(7) alarm_with_id_def tab
    by (simp add: find_update_id row_state_texts del: tbl_update_simps)
  let ?f = "\<lambda>x. x\<lparr>al_state := ''shelved'', al_shelved_until := Some (to_rfc3339 L
      (wall w (wall_reads w) + shelve_nanos mins)), al_shelved_by := Some u\<rparr>"
  have "filter (unresolved_on d g) (map (\<lambda>x. if al_id x = al_id r then ?f x else x) xs) =
      filter (\<lambda>x. al_id x \<noteq> al_id r) (filter (unresolved_on d g) xs)" for d g xs
    by (induction xs) (auto simp: unresolved_on_def)
  then have none: "unresolved (dc_id dev) reg w1 = []"
    using assms(4) unfolding assms(7) unresolved_def tab by (simp del: filter_filter)
  have "seq (alarms w1) = seq (alarms w)" unfolding assms(7) tab by simp
  then have old: "al_id r \<le> seq (alarms w1)" using assms(2) mem by (simp add: tbl_ok_def)
  have ok: "healthy w1" "tbl_ok al_id (alarms w1)"
    using assms(1) alarm_op_ids_ok [OF assms(2), of L "Shelve (al_id r) u mins reason"]
    by (simp_all add: assms(7))
  have "alarm_response (seq (alarms w1)) (dc_id dev) reg crit safe v []
      (unresolved (dc_id dev) reg w2)"
    using monitor_alarms_response [OF ok assms(3), of m v dev] assms(5,8) none by simp
  then obtain r' where "unresolved (dc_id dev) reg w2 = [r']" "seq (alarms w1) < al_id r'"
    using assms(6) by (auto simp: alarm_response_def)
  with shelved old show ?thesis by auto
qed

theorem shelved_alarm_raised_again_witness:
  "\<exists>r'. unresolved ''plc-01'' 1028 (monitor_alarms sample_libs sample_device [1028 \<mapsto> 120]
     (snd (shelve_alarm sample_libs (al_id sample_row) ''op'' 60 ''maintenance''
       sample_alarm_world))) = [r'] \<and> al_id r' \<noteq> al_id sample_row"
proof -
  have "monitored 1028 100 80.75" by (simp add: monitored_def)
  from shelved_alarm_raised_again [OF sample_alarm_env(1) sample_alarm_ids this,
      where dev = sample_device and v = 120 and m = "[1028 \<mapsto> 120]", OF _ _ _ refl refl]
  show ?thesis by (simp add: sample_unresolved)
qed

section \<open>Batch tracking over a cycle\<close>

text \<open>The batch-state register over successive ticks.\<close>
fun track_states ::
    "libs \<Rightarrow> device_config \<Rightarrow> u16 list \<Rightarrow> batch_track \<times> world \<Rightarrow> batch_track \<times> world" where
  "track_states L dev [] s = s"
| "track_states L dev (x # xs) s =
     track_states L dev xs (track_batch L dev [1032 \<mapsto> u16_as_f64 x] (fst s) (snd s))"

lemma get_running_batch_none:
  "\<forall>r \<in> set (rows (batch_records w)). \<not> running_on dev r \<Longrightarrow>
     fst (get_running_batch dev w) = None"
  by (simp add: get_running_batch_def env_defs Let_def sql_limit_def order_desc_def filter_False
      split: option.split)

lemma get_running_batch_last:
  assumes "healthy w" and "tbl_ok br_id (batch_records w)"
    and "rows (batch_records w) = xs @ [r]" and "running_on dev r"
  shows "fst (get_running_batch dev w) = Some (br_id r, br_batch_id r)"
proof -
  have "order_desc br_id (filter (running_on dev) (rows (batch_records w))) =
      r # rev (filter (running_on dev) xs)"
    unfolding order_desc_rows [OF assms(2)] using assms(3,4) by (simp add: rev_filter)
  with assms(1) show ?thesis
    by (simp add: get_running_batch_def env_defs Let_def sql_limit_def)
qed

lemma get_running_batch_table [simp]:
  "batch_records (snd (get_running_batch dev w)) = batch_records w"
  "batch_steps (snd (get_running_batch dev w)) = batch_steps w"
  by (simp_all add: get_running_batch_def env_defs Let_def)

lemma finish_running_last:
  assumes "healthy w" and "tbl_ok br_id (batch_records w)"
    and "rows (batch_records w) = xs @ [r]" and "running_on dev r"
    and "br_batch_id r \<notin> br_batch_id ` set xs" and "st = ''completed'' \<or> st = ''aborted''"
  shows "\<exists>t. rows (batch_records (finish_running L dev st x w)) =
    xs @ [r\<lparr>br_status := st, br_end_time := Some t, br_notes := coalesce x (br_notes r)\<rparr>]"
proof -
  have "map (\<lambda>q. if br_batch_id q = br_batch_id r then f q else q) xs = xs" for f
    using assms(5) by (intro map_idI) (metis image_eqI)
  then show ?thesis
    using assms(6) unfolding finish_running_def Let_def get_running_batch_last [OF assms(1-4)]
    by (auto simp: update_batch_status_table assms(1,3) coalesce_def)
qed

lemma track_batch_quiet:
  assumes "prev_batch_state b = Some p" and "p \<notin> {0, 4}" and "x \<notin> {0, 4}"
  shows "track_batch L dev [1032 \<mapsto> u16_as_f64 x] b w = (b\<lparr>prev_batch_state := Some x\<rparr>, w)"
  using assms by (cases b) (simp add: track_batch_cases track_world_def prev_or_def batch_codes)

lemma track_states_quiet:
  assumes "prev_batch_state b = Some p" and "p \<notin> {0, 4}" and "set xs \<inter> {0, 4} = {}"
  shows "\<exists>p'. p' \<notin> {0, 4} \<and>
    track_states L dev (xs @ ys) (b, w) = track_states L dev ys (b\<lparr>prev_batch_state := Some p'\<rparr>, w)"
  using assms
proof (induction xs arbitrary: b p)
  case Nil
  then show ?case by (intro exI [of _ p]) (cases b, simp)
next
  case (Cons x xs)
  from Cons.IH [of "b\<lparr>prev_batch_state := Some x\<rparr>" x] Cons.prems show ?case
    by (simp add: track_batch_quiet)
qed

lemma track_world_ends:
  "p \<notin> {0, 4} \<Longrightarrow> s \<in> {0, 4} \<Longrightarrow> track_world L dev p s n w =
     finish_running L dev (if s = 4 then ''completed'' else ''aborted'')
       (if s = 4 then None else Some ''Emergency stop'') w"
  by (auto simp: track_world_def batch_codes)

text \<open>
  C18: one batch record per reactor cycle. When the batch state, seen at successive ticks, leaves idle
  for heating, passes through any running phases and ends in complete or back in idle, exactly one
  record is added, under the device's next batch id, and it is completed when the cycle ended in
  complete and aborted with the note of the emergency stop when it went back to idle; every earlier
  record is untouched. The hypothesis is that the id is not taken yet.
\<close>
theorem batch_cycle_recorded:
  assumes "healthy w" and "batches_ok w" and "prev_batch_state b = Some 0"
    and "set phases \<inter> {0, 4} = {}" and "final \<in> {0, 4}"
    and "new_id = batch_id_text (dc_id dev) (batch_counter b + 1)"
    and "new_id \<notin> br_batch_id ` set (rows (batch_records w))"
    and "track_states L dev (1 # phases @ [final]) (b, w) = (b', w')"
  shows "\<exists>r. rows (batch_records w') = rows (batch_records w) @ [r] \<and>
    br_batch_id r = new_id \<and> br_device_id r = dc_id dev \<and> br_end_time r \<noteq> None \<and>
    (if final = 4 then br_status r = ''completed'' \<and> br_notes r = None
     else br_status r = ''aborted'' \<and> br_notes r = Some ''Emergency stop'') \<and>
    batch_counter b' = batch_counter b + 1"
proof -
  let ?c = "create_batch L new_id ''Reactor Cycle'' (dc_id dev) ''system'' w"
  let ?b = "\<lparr>prev_batch_state = Some 1, batch_counter = batch_counter b + 1\<rparr>"
  have first: "track_batch L dev [1032 \<mapsto> u16_as_f64 1] b w = (?b, snd ?c)"
    using assms(3) by (simp add: track_batch_cases track_world_def prev_or_def batch_codes
        assms(6))
  obtain p where p: "p \<notin> {0, 4}"
    and rest: "track_states L dev (1 # phases @ [final]) (b, w) =
      track_batch L dev [1032 \<mapsto> u16_as_f64 final] (?b\<lparr>prev_batch_state := Some p\<rparr>) (snd ?c)"
    using track_states_quiet [of ?b 1 phases L dev "[final]" "snd ?c"] assms(4)
    by (auto simp: first)
  define r where "r = batch_columns (new_id, ''Reactor Cycle'', dc_id dev, ''system'',
      to_rfc3339 L (wall w (wall_reads w))) (seq (batch_records w) + 1)"
  have rows: "rows (batch_records (snd ?c)) = rows (batch_records w) @ [r]"
    using assms(1,7) by (simp add: create_batch_table r_def)
  have r: "br_batch_id r = new_id" "br_device_id r = dc_id dev" "br_notes r = None"
    "running_on (dc_id dev) r"
    by (simp_all add: r_def running_on_def) (simp add: batch_columns_def)
  have ok: "tbl_ok br_id (batch_records (snd ?c))"
    using batches_ok_step [OF assms(2), of L "Create new_id ''Reactor Cycle'' (dc_id dev) ''system''"]
    by (simp add: batches_ok_def)
  have healthy: "healthy (snd ?c)" using assms(1) by simp
  have fresh: "br_batch_id r \<notin> br_batch_id ` set (rows (batch_records w))"
    using assms(7) r(1) by simp
  note fin = finish_running_last [OF healthy ok rows r(4) fresh, where L = L]
  have "w' = finish_running L (dc_id dev) (if final = 4 then ''completed'' else ''aborted'')
      (if final = 4 then None else Some ''Emergency stop'') (snd ?c)"
    and "batch_counter b' = batch_counter b + 1"
    using assms(5,8) p unfolding rest
    by (auto simp: track_batch_cases track_world_ends prev_or_def starts_def BATCH_HEATING_def)
  then show ?thesis using fin [of "''completed''" None] fin [of "''aborted''" "Some ''Emergency stop''"] r
    by (auto simp: coalesce_def)
qed

lemma show_padded_sample: "batch_id_text ''plc-01'' 1 = ''BATCH-plc-01-0001''"
  by code_simp

lemma batches_ok_sample: "batches_ok sample_world"
  by (simp add: batches_ok_def) (simp add: empty_table_def)

theorem batch_cycle_recorded_witness:
  "\<exists>r. rows (batch_records (snd (track_states sample_libs sample_device [1, 2, 2, 3, 4]
      (\<lparr>prev_batch_state = Some 0, batch_counter = 0\<rparr>, sample_world)))) = [r] \<and>
    br_batch_id r = ''BATCH-plc-01-0001'' \<and> br_status r = ''completed''"
proof -
  obtain b' w' where run: "track_states sample_libs sample_device (1 # [2, 2, 3] @ [4])
      (\<lparr>prev_batch_state = Some 0, batch_counter = 0\<rparr>, sample_world) = (b', w')"
    by (metis surj_pair)
  have "\<exists>r. rows (batch_records w') = rows (batch_records sample_world) @ [r] \<and>
      br_batch_id r = ''BATCH-plc-01-0001'' \<and> br_status r = ''completed''"
    using batch_cycle_recorded [OF sample_healthy batches_ok_sample _ _ _ _ _ run]
    by (simp add: show_padded_sample) (auto simp: empty_table_def)
  then show ?thesis using run by (simp add: empty_table_def)
qed

text \<open>
  C40: after a restart of a device task the batch counter starts again at one, while the records of the
  earlier run are still stored. If the id of the first batch exists and nothing is running, the whole
  first cycle after the restart leaves no trace: the batch table is exactly as before.
\<close>
theorem batch_lost_after_restart:
  assumes "healthy w" and "\<forall>r \<in> set (rows (batch_records w)). \<not> running_on (dc_id dev) r"
    and "batch_id_text (dc_id dev) 1 \<in> br_batch_id ` set (rows (batch_records w))"
    and "set phases \<inter> {0, 4} = {}" and "final \<in> {0, 4}"
    and "prev_batch_state b = None" and "batch_counter b = 0"
  shows "batch_records (snd (track_states L dev (0 # 1 # phases @ [final]) (b, w))) =
    batch_records w"
proof -
  let ?c = "create_batch L (batch_id_text (dc_id dev) 1) ''Reactor Cycle'' (dc_id dev) ''system'' w"
  let ?b = "\<lparr>prev_batch_state = Some 1, batch_counter = 1\<rparr>"
  have first: "track_states L dev (0 # 1 # phases @ [final]) (b, w) =
      track_states L dev (phases @ [final]) (?b, snd ?c)"
    using assms(6,7) by (cases b) (simp add: track_batch_cases track_world_def prev_or_def
        batch_codes)
  obtain p where p: "p \<notin> {0, 4}"
    and rest: "track_states L dev (phases @ [final]) (?b, snd ?c) =
      track_batch L dev [1032 \<mapsto> u16_as_f64 final] (?b\<lparr>prev_batch_state := Some p\<rparr>) (snd ?c)"
    using track_states_quiet [of ?b 1 phases L dev "[final]" "snd ?c"] assms(4) by auto
  have same: "batch_records (snd ?c) = batch_records w"
    using assms(3) by (simp add: create_batch_table)
  have idle: "fst (get_running_batch (dc_id dev) (snd ?c)) = None"
    using assms(2) by (intro get_running_batch_none) (simp add: same)
  from p assms(5) show ?thesis
    unfolding first rest
    by (auto simp: track_batch_cases track_world_def finish_running_def idle same prev_or_def
        batch_codes)
qed

definition restarted_world :: world where
  "restarted_world = sample_world\<lparr>batch_records := \<lparr>rows =
     [(batch_columns (''BATCH-plc-01-0001'', ''Reactor Cycle'', ''plc-01'', ''system'', ''t'') 1)
        \<lparr>br_status := ''completed''\<rparr>], seq = 1\<rparr>\<rparr>"

lemma restarted_world_simps:
  "healthy restarted_world"
  "rows (batch_records restarted_world) =
     [(batch_columns (''BATCH-plc-01-0001'', ''Reactor Cycle'', ''plc-01'', ''system'', ''t'') 1)
        \<lparr>br_status := ''completed''\<rparr>]"
  by (simp_all add: restarted_world_def healthy_def)

theorem batch_lost_after_restart_witness:
  "batch_records (snd (track_states sample_libs sample_device [0, 1, 2, 3, 4]
     (\<lparr>prev_batch_state = None, batch_counter = 0\<rparr>, restarted_world))) =
   batch_records restarted_world"
proof -
  have "batch_records (snd (track_states sample_libs sample_device (0 # 1 # [2, 3] @ [4])
     (\<lparr>prev_batch_state = None, batch_counter = 0\<rparr>, restarted_world))) =
   batch_records restarted_world"
    by (rule batch_lost_after_restart [OF restarted_world_simps(1)])
      (simp_all add: restarted_world_simps running_on_def show_padded_sample)
  then show ?thesis by simp
qed

end
