(* ===== verification/Modbus.thy ===== *)
theory Modbus
  imports Protocol
begin

text \<open>
  The Modbus TCP client, \<open>server/src/modbus.rs\<close>, and what a device task may rely on in any client.
  The network is a parameter: for the \<open>n\<close>-th call, what the peer answers. The locale
  \<open>plc_protocol\<close> is the contract of the trait \<open>PlcProtocol\<close>; the Modbus client is its
  interpretation \<open>modbus\<close>.
\<close>

section \<open>The contract of a client\<close>

locale plc_protocol =
  fixes ops :: "'c plc_ops" and client_ok :: "'c \<Rightarrow> bool"
  assumes connect_keeps: "client_ok c \<Longrightarrow> client_ok (snd (plc_connect ops c))"
    and read_keeps: "client_ok c \<Longrightarrow> client_ok (snd (plc_read ops start n c))"
    and write_keeps: "client_ok c \<Longrightarrow> client_ok (snd (plc_write ops reg val c))"
    and connect_live: "client_ok c \<Longrightarrow> is_ok (fst (plc_connect ops c)) \<Longrightarrow>
      plc_is_connected ops (snd (plc_connect ops c))"
    and read_live: "client_ok c \<Longrightarrow> plc_is_connected ops c \<Longrightarrow>
      is_ok (fst (plc_read ops start n c)) \<Longrightarrow>
      plc_is_connected ops (snd (plc_read ops start n c))"
    and write_live: "client_ok c \<Longrightarrow> plc_is_connected ops c \<Longrightarrow>
      is_ok (fst (plc_write ops reg val c)) \<Longrightarrow>
      plc_is_connected ops (snd (plc_write ops reg val c))"
    and read_dead: "client_ok c \<Longrightarrow> \<not> plc_is_connected ops c \<Longrightarrow>
      \<not> is_ok (fst (plc_read ops start n c))"
    and write_dead: "client_ok c \<Longrightarrow> \<not> plc_is_connected ops c \<Longrightarrow>
      \<not> is_ok (fst (plc_write ops reg val c))"
begin

definition task_ok :: "'c task \<Rightarrow> bool" where
  "task_ok s \<longleftrightarrow> client_ok (tk_client s) \<and>
     (tk_phase s = Polling \<longrightarrow> plc_is_connected ops (tk_client s))"

lemma start_task_ok: "client_ok c \<Longrightarrow> task_ok (start_task c w)"
  by (simp add: task_ok_def start_task_def)

lemma task_step_ok: "task_step L ops dev s e t \<Longrightarrow> task_ok s \<Longrightarrow> task_ok t"
proof (induction rule: task_step.induct)
  case (do_attempt s w)
  then show ?case
    using connect_keeps [of "tk_client s"] connect_live [of "tk_client s"]
    by (cases "plc_connect ops (tk_client s)")
      (auto simp: task_ok_def on_connect_def split: sum.split)
next
  case (do_write s reg val w)
  then show ?case
    using write_keeps [of "tk_client s" reg val] write_live [of "tk_client s" reg val]
    by (cases "plc_write ops reg val (tk_client s)")
      (auto simp: task_ok_def on_write_def split: sum.split)
next
  case (do_tick s w)
  then show ?case
    using read_keeps [of "tk_client s" "dc_register_start dev" "dc_register_count dev"]
      read_live [of "tk_client s" "dc_register_start dev" "dc_register_count dev"]
    by (cases "plc_read ops (dc_register_start dev) (dc_register_count dev) (tk_client s)")
      (auto simp: task_ok_def on_tick_def split: sum.split prod.split)
qed (simp add: task_ok_def)

lemma task_run_ok: "task_run L ops dev s es t \<Longrightarrow> task_ok s \<Longrightarrow> task_ok t"
  by (induction rule: task_run.induct) (auto intro: task_step_ok)

text \<open>A task that polls has a connection, and a task that got an answer still has one.\<close>
lemma polling_connected:
  assumes "client_ok c" and "task_run L ops dev (start_task c w) es t" and "tk_phase t = Polling"
  shows "plc_is_connected ops (tk_client t)"
  using task_run_ok [OF assms(2) start_task_ok [OF assms(1)]] assms(3) by (simp add: task_ok_def)

end

section \<open>The client\<close>

text \<open>An answer of the peer: a value, a Modbus exception, or a transport error.\<close>
datatype 'a answer = Answer 'a | Exception string | IoError string

record modbus_client =
  mb_address :: string
  mb_ctx :: bool
  mb_calls :: nat
  mb_connects :: "nat \<Rightarrow> unit result"
  mb_reads :: "nat \<Rightarrow> u16 \<Rightarrow> u16 \<Rightarrow> u16 list answer"
  mb_writes :: "nat \<Rightarrow> u16 \<Rightarrow> u16 \<Rightarrow> unit answer"

text \<open>\<open>ModbusClient::new\<close>, which panics (\<open>None\<close>) on a text that is not a socket address.\<close>
definition modbus_new ::
    "libs \<Rightarrow> string \<Rightarrow> (nat \<Rightarrow> unit result) \<Rightarrow> (nat \<Rightarrow> u16 \<Rightarrow> u16 \<Rightarrow> u16 list answer) \<Rightarrow>
     (nat \<Rightarrow> u16 \<Rightarrow> u16 \<Rightarrow> unit answer) \<Rightarrow> modbus_client option" where
  "modbus_new L address cs rs ws =
     (if parse_socket_addr L address
      then Some \<lparr>mb_address = address, mb_ctx = False, mb_calls = 0, mb_connects = cs,
        mb_reads = rs, mb_writes = ws\<rparr>
      else None)"

abbreviation called :: "modbus_client \<Rightarrow> modbus_client" where
  "called c \<equiv> c\<lparr>mb_calls := mb_calls c + 1\<rparr>"

definition modbus_connect :: "modbus_client \<Rightarrow> unit result \<times> modbus_client" where
  "modbus_connect c =
     (case mb_connects c (mb_calls c) of
        Inr _ \<Rightarrow> (Inr (), (called c)\<lparr>mb_ctx := True\<rparr>)
      | Inl e \<Rightarrow> (Inl (''Modbus connect failed: '' @ e), called c))"

definition modbus_read :: "u16 \<Rightarrow> u16 \<Rightarrow> modbus_client \<Rightarrow> u16 list result \<times> modbus_client" where
  "modbus_read start count c =
     (if \<not> mb_ctx c then (Inl ''Not connected'', c)
      else case mb_reads c (mb_calls c) start count of
        Answer regs \<Rightarrow> (Inr regs, called c)
      | Exception e \<Rightarrow> (Inl (''Modbus exception: '' @ e), called c)
      | IoError e \<Rightarrow> (Inl (''Read failed: '' @ e), (called c)\<lparr>mb_ctx := False\<rparr>))"

definition modbus_write :: "u16 \<Rightarrow> u16 \<Rightarrow> modbus_client \<Rightarrow> unit result \<times> modbus_client" where
  "modbus_write address val c =
     (if \<not> mb_ctx c then (Inl ''Not connected'', c)
      else case mb_writes c (mb_calls c) address val of
        Answer _ \<Rightarrow> (Inr (), called c)
      | Exception e \<Rightarrow> (Inl (''Modbus write exception: '' @ e), called c)
      | IoError e \<Rightarrow> (Inl (''Write failed: '' @ e), (called c)\<lparr>mb_ctx := False\<rparr>))"

definition modbus_ops :: "modbus_client plc_ops" where
  "modbus_ops = \<lparr>plc_connect = modbus_connect, plc_read = modbus_read, plc_write = modbus_write,
     plc_is_connected = mb_ctx, plc_name = (\<lambda>_. ''modbus'')\<rparr>"

interpretation modbus: plc_protocol modbus_ops "\<lambda>_. True"
  by unfold_locales
    (auto simp: modbus_ops_def modbus_connect_def modbus_read_def modbus_write_def
      split: sum.splits answer.splits if_splits)

section \<open>The device task over any client\<close>

fun is_write :: "task_event \<Rightarrow> bool" where
  "is_write (Write _ _) = True"
| "is_write _ = False"

fun is_poll :: "task_event \<Rightarrow> bool" where
  "is_poll Tick = True"
| "is_poll (Write _ _) = True"
| "is_poll _ = False"

inductive_cases task_stepE: "task_step L ops dev s e t"

lemma on_connect_phase:
  "tk_phase (on_connect ops dev s) = Pausing \<or>
   tk_phase (on_connect ops dev s) = (if dc_poll_rate_ms dev = 0 then Panicked else Polling)"
  by (cases "plc_connect ops (tk_client s)") (auto simp: on_connect_def split: sum.split)

lemma on_write_phase:
  "tk_phase (on_write ops reg val s) = tk_phase s \<or> tk_phase (on_write ops reg val s) = Pausing"
  by (cases "plc_write ops reg val (tk_client s)") (auto simp: on_write_def split: sum.split)

lemma on_tick_phase:
  "tk_phase (on_tick L ops dev s) = tk_phase s \<or> tk_phase (on_tick L ops dev s) = Pausing"
  by (cases "plc_read ops (dc_register_start dev) (dc_register_count dev) (tk_client s)")
    (auto simp: on_tick_def split: sum.split prod.split)

lemma task_step_panic:
  "task_step L ops dev s e t \<Longrightarrow>
     (tk_phase t = Panicked \<longrightarrow> dc_poll_rate_ms dev = 0 \<and> e = Attempt) \<and>
     (dc_poll_rate_ms dev = 0 \<and> tk_phase s \<noteq> Polling \<longrightarrow> tk_phase t \<noteq> Polling \<and> \<not> is_poll e) \<and>
     tk_phase s \<noteq> Panicked"
proof (induction rule: task_step.induct)
  case (do_attempt s w)
  then show ?case using on_connect_phase [of ops dev "s\<lparr>tk_world := w\<rparr>"] by (auto split: if_splits)
next
  case (do_write s reg val w)
  then show ?case using on_write_phase [of ops reg val "s\<lparr>tk_world := w\<rparr>"] by auto
next
  case (do_tick s w)
  then show ?case using on_tick_phase [of L ops dev "s\<lparr>tk_world := w\<rparr>"] by auto
qed simp

lemma task_can_step: "(\<exists>e t. task_step L ops dev s e t) \<longleftrightarrow> tk_phase s \<noteq> Panicked"
proof
  show "tk_phase s \<noteq> Panicked" if "\<exists>e t. task_step L ops dev s e t"
    using that task_step_panic by blast
  show "\<exists>e t. task_step L ops dev s e t" if "tk_phase s \<noteq> Panicked"
    using that by (cases "tk_phase s") (blast intro: task_step.intros)+
qed

lemma task_run_panic:
  "task_run L ops dev s es t \<Longrightarrow> tk_phase s = Connecting \<Longrightarrow>
     (tk_phase t = Panicked \<longrightarrow> dc_poll_rate_ms dev = 0) \<and>
     (dc_poll_rate_ms dev = 0 \<longrightarrow> tk_phase t \<noteq> Polling \<and> filter is_poll es = [])"
proof (induction rule: task_run.induct)
  case (run_more s es t e u)
  then show ?case using task_step_panic [OF run_more.hyps(2)] by auto
qed simp


definition sample_modbus :: modbus_client where
  "sample_modbus = \<lparr>mb_address = ''127.0.0.1:5020'', mb_ctx = False, mb_calls = 0,
     mb_connects = (\<lambda>_. Inr ()), mb_reads = (\<lambda>_ start n. Answer (replicate (unat n) 7)),
     mb_writes = (\<lambda>n reg val. if n < 2 then Answer () else IoError ''reset'')\<rparr>"

lemma sample_modbus_connect:
  "on_connect modbus_ops dev (start_task sample_modbus w) = (start_task sample_modbus w)
     \<lparr>tk_client := sample_modbus\<lparr>mb_ctx := True, mb_calls := 1\<rparr>,
      tk_phase := (if dc_poll_rate_ms dev = 0 then Panicked else Polling)\<rparr>"
  by (simp add: on_connect_def modbus_ops_def modbus_connect_def sample_modbus_def start_task_def)

lemma sample_task_connects:
  "task_run L modbus_ops dev (start_task sample_modbus w) [Attempt]
     (on_connect modbus_ops dev (start_task sample_modbus w))"
proof -
  have "task_step L modbus_ops dev (start_task sample_modbus w) Attempt
      (on_connect modbus_ops dev ((start_task sample_modbus w)\<lparr>tk_world := w\<rparr>))"
    by (rule do_attempt) (simp add: start_task_def)
  then have "task_step L modbus_ops dev (start_task sample_modbus w) Attempt
      (on_connect modbus_ops dev (start_task sample_modbus w))"
    by (simp add: start_task_def)
  from run_more [OF run_none this] show ?thesis by simp
qed


text \<open>
  A Modbus device task is in its poll and write loop only while its client holds a connection,
  whatever the network answers and whatever the rest of the server does to the database.
\<close>
theorem modbus_task_connected:
  assumes "task_run L modbus_ops dev (start_task c w) es t" and "tk_phase t = Polling"
  shows "mb_ctx (tk_client t)"
  using modbus.polling_connected [OF TrueI assms] by (simp add: modbus_ops_def)

theorem modbus_task_connected_witness:
  "mb_ctx (tk_client (on_connect modbus_ops sample_device (start_task sample_modbus sample_world)))"
  by (rule modbus_task_connected [OF sample_task_connects])
    (simp add: sample_modbus_connect sample_device_def)

text \<open>The connection after a read or a write: lost exactly when the transport failed.\<close>
lemma modbus_link_lost:
  "mb_ctx c \<Longrightarrow> mb_ctx (snd (modbus_read start n c)) \<longleftrightarrow>
     (\<nexists>e. mb_reads c (mb_calls c) start n = IoError e)"
  "mb_ctx c \<Longrightarrow> mb_ctx (snd (modbus_write reg val c)) \<longleftrightarrow>
     (\<nexists>e. mb_writes c (mb_calls c) reg val = IoError e)"
  by (simp_all add: modbus_read_def modbus_write_def split: answer.split)

lemma on_write_replies:
  "tk_replies (on_write ops reg val s) =
     tk_replies s @ [fst (plc_write ops reg val (tk_client s))]"
  by (cases "plc_write ops reg val (tk_client s)") (auto simp: on_write_def split: sum.split)

lemma task_step_replies:
  "task_step L ops dev s e t \<Longrightarrow> tk_replies t = tk_replies s @
     (case e of Write reg val \<Rightarrow> [fst (plc_write ops reg val (tk_client s))] | _ \<Rightarrow> [])"
proof (induction rule: task_step.induct)
  case (do_attempt s w)
  then show ?case
    by (cases "plc_connect ops (tk_client s)") (auto simp: on_connect_def split: sum.split)
next
  case (do_tick s w)
  then show ?case
    by (cases "plc_read ops (dc_register_start dev) (dc_register_count dev) (tk_client s)")
      (auto simp: on_tick_def split: sum.split prod.split)
qed (simp_all add: on_write_replies)

text \<open>
  Every write command that reaches a device task gets exactly one answer, and it is what the client
  returned for that register and value: the answers of a run are, in order, the client's results
  for its write commands, and nothing else answers.
\<close>
theorem writes_answered_once:
  assumes "task_run L ops dev s es t"
  shows "\<exists>cs. length cs = length (filter is_write es) \<and>
    tk_replies t = tk_replies s @ map (\<lambda>(c, e). case e of
        Write reg val \<Rightarrow> fst (plc_write ops reg val c) | _ \<Rightarrow> Inr ())
      (zip cs (filter is_write es))"
  using assms
proof (induction rule: task_run.induct)
  case (run_more s es t e u)
  then obtain cs where cs: "length cs = length (filter is_write es)"
    "tk_replies t = tk_replies s @ map (\<lambda>(c, e). case e of
        Write reg val \<Rightarrow> fst (plc_write ops reg val c) | _ \<Rightarrow> Inr ())
      (zip cs (filter is_write es))" by blast
  show ?case
    using task_step_replies [OF run_more.hyps(2)] cs
    by (intro exI [of _ "cs @ (if is_write e then [tk_client t] else [])"]) (cases e; simp)
qed simp

theorem writes_answered_once_witness:
  "\<exists>t. task_run sample_libs modbus_ops sample_device (start_task sample_modbus sample_world)
      [Attempt, Write 1031 50] t \<and> length (tk_replies t) = 1"
proof -
  let ?s = "on_connect modbus_ops sample_device (start_task sample_modbus sample_world)"
  have run: "task_run sample_libs modbus_ops sample_device (start_task sample_modbus sample_world)
      ([Attempt] @ [Write 1031 50]) (on_write modbus_ops 1031 50 (?s\<lparr>tk_world := sample_world\<rparr>))"
    by (rule run_more [OF sample_task_connects], rule do_write)
      (simp add: sample_modbus_connect sample_device_def)
  from writes_answered_once [OF run] run show ?thesis
    by (intro exI conjI) (simp, auto simp: start_task_def)
qed

end
