(* ===== verification/Opcua.thy ===== *)
theory Opcua
  imports Modbus
begin

text \<open>
  The OPC UA client, \<open>server/src/opcua_client.rs\<close>: a session, and a cache that the data-change
  callback of a subscription fills. A read answers from the cache when the callback has delivered
  since the last such read, and otherwise asks the server; after more than five reads without a
  delivery the subscription is given up. The library's answers are parameters, by call number; what
  the callback delivered before a call is part of them. Mutexes are taken as never poisoned: no code
  path panics while it holds one.
\<close>

section \<open>Values\<close>

text \<open>The numeric constructors of \<open>opcua::Variant\<close>, and all others.\<close>
datatype variant = VUInt16 u16 | VInt16 "16 word" | VUInt32 "32 word" | VInt32 "32 word"
  | VFloat f64 | VDouble f64 | VByte "8 word" | VSByte "8 word" | VUInt64 "64 word"
  | VInt64 "64 word" | VOther

definition variant_to_u16 :: "variant option \<Rightarrow> u16" where
  "variant_to_u16 v = (case v of
       Some (VUInt16 x) \<Rightarrow> x
     | Some (VInt16 x) \<Rightarrow> x
     | Some (VUInt32 x) \<Rightarrow> ucast x
     | Some (VInt32 x) \<Rightarrow> ucast x
     | Some (VFloat x) \<Rightarrow> f64_as_u16 x
     | Some (VDouble x) \<Rightarrow> f64_as_u16 x
     | Some (VByte x) \<Rightarrow> ucast x
     | Some (VSByte x) \<Rightarrow> scast x
     | Some (VUInt64 x) \<Rightarrow> ucast x
     | Some (VInt64 x) \<Rightarrow> ucast x
     | _ \<Rightarrow> 0)"

section \<open>The client\<close>

text \<open>
  What a call of the library gave: a value, an error it reported, or a blocking task that died.
\<close>
datatype 'a blocking = Done 'a | Failed string | JoinError string

record opcua_net =
  on_client :: "nat \<Rightarrow> bool"
  on_connects :: "nat \<Rightarrow> unit blocking"
  on_subscribe :: "nat \<Rightarrow> unit result"
  on_monitor :: "nat \<Rightarrow> bool list result"
  on_reads :: "nat \<Rightarrow> u32 list \<Rightarrow> variant option list blocking"
  on_writes :: "nat \<Rightarrow> u32 \<Rightarrow> u16 \<Rightarrow> (string option) list blocking"
  on_pushed :: "nat \<Rightarrow> (u32 \<times> variant option) list list"

record opcua_client =
  oc_url :: string
  oc_session :: bool
  oc_cache :: "u32 \<rightharpoonup> u16"
  oc_update_count :: u64
  oc_last_read_count :: u64
  oc_sub_active :: bool
  oc_stale_reads :: u32
  oc_calls :: nat
  oc_waits :: nat
  oc_net :: opcua_net

definition opcua_new :: "string \<Rightarrow> opcua_net \<Rightarrow> opcua_client" where
  "opcua_new url net = \<lparr>oc_url = url, oc_session = False, oc_cache = Map.empty,
     oc_update_count = 0, oc_last_read_count = 0, oc_sub_active = False, oc_stale_reads = 0,
     oc_calls = 0, oc_waits = 0, oc_net = net\<rparr>"

text \<open>The closure given to \<open>DataChangeCallback::new\<close>.\<close>
definition on_data_change :: "(u32 \<times> variant option) list \<Rightarrow> opcua_client \<Rightarrow> opcua_client" where
  "on_data_change items c =
     (if items = [] then c
      else c\<lparr>oc_cache := fold (\<lambda>(handle, v) m. m(handle \<mapsto> variant_to_u16 v)) items (oc_cache c),
             oc_update_count := oc_update_count c + 1\<rparr>)"

definition monitored_registers :: "u32 list" where
  "monitored_registers = map of_nat [1028..<1036]"

text \<open>
  \<open>create_data_subscription\<close>: create the subscription, then the monitored items; the status of a
  single item is only logged.
\<close>
definition create_data_subscription :: "opcua_client \<Rightarrow> unit result" where
  "create_data_subscription c =
     (case on_subscribe (oc_net c) (oc_calls c) of
        Inl e \<Rightarrow> Inl (''create_subscription failed: '' @ e)
      | Inr _ \<Rightarrow> (case on_monitor (oc_net c) (oc_calls c) of
          Inl e \<Rightarrow> Inl (''create_monitored_items failed: '' @ e)
        | Inr _ \<Rightarrow> Inr ()))"

definition opcua_connect :: "opcua_client \<Rightarrow> unit result \<times> opcua_client" where
  "opcua_connect c =
     (let n = oc_calls c;
          c = c\<lparr>oc_cache := Map.empty, oc_update_count := 0, oc_last_read_count := 0\<rparr>;
          d = c\<lparr>oc_calls := n + 1\<rparr> in
      if \<not> on_client (oc_net c) n then (Inl ''Failed to build OPC UA client'', d)
      else case on_connects (oc_net c) n of
        Failed e \<Rightarrow> (Inl (''OPC UA connect failed: '' @ e), d)
      | JoinError e \<Rightarrow> (Inl (''Spawn blocking failed: '' @ e), d)
      | Done _ \<Rightarrow>
          (Inr (), d\<lparr>oc_session := True, oc_sub_active := is_ok (create_data_subscription c),
             oc_stale_reads := 0\<rparr>))"

text \<open>\<open>start..start + count\<close>: empty when the sum wraps past the end of the address space.\<close>
definition register_range :: "u16 \<Rightarrow> u16 \<Rightarrow> u32 list" where
  "register_range start count = map of_nat [unat start..<unat (start + count)]"

definition drop_session :: "opcua_client \<Rightarrow> opcua_client" where
  "drop_session c = c\<lparr>oc_session := False, oc_sub_active := False, oc_cache := Map.empty\<rparr>"

definition poll_server :: "u16 \<Rightarrow> u16 \<Rightarrow> opcua_client \<Rightarrow> u16 list result \<times> opcua_client" where
  "poll_server start count c =
     (if \<not> oc_session c then (Inl ''Not connected'', c)
      else let d = c\<lparr>oc_calls := oc_calls c + 1\<rparr> in
        case on_reads (oc_net c) (oc_calls c) (register_range start count) of
          Done results \<Rightarrow> (Inr (map variant_to_u16 results), d)
        | Failed e \<Rightarrow> (Inl (''OPC UA read failed: '' @ e), drop_session d)
        | JoinError e \<Rightarrow> (Inl (''Spawn blocking failed: '' @ e), d))"

definition cached_values :: "u16 \<Rightarrow> u16 \<Rightarrow> opcua_client \<Rightarrow> u16 list" where
  "cached_values start count c =
     map (\<lambda>reg. case oc_cache c reg of None \<Rightarrow> 0 | Some v \<Rightarrow> v) (register_range start count)"

definition opcua_read :: "u16 \<Rightarrow> u16 \<Rightarrow> opcua_client \<Rightarrow> u16 list result \<times> opcua_client" where
  "opcua_read start count c =
     (if oc_sub_active c then
        (if oc_last_read_count c < oc_update_count c
         then (Inr (cached_values start count c),
            c\<lparr>oc_last_read_count := oc_update_count c, oc_stale_reads := 0\<rparr>)
         else (let stale = oc_stale_reads c + 1 in
           poll_server start count
             (c\<lparr>oc_stale_reads := stale, oc_sub_active := \<not> 5 < stale\<rparr>)))
      else poll_server start count c)"

definition opcua_write :: "u16 \<Rightarrow> u16 \<Rightarrow> opcua_client \<Rightarrow> unit result \<times> opcua_client" where
  "opcua_write address val c =
     (if \<not> oc_session c then (Inl ''Not connected'', c)
      else let d = c\<lparr>oc_calls := oc_calls c + 1\<rparr> in
        case on_writes (oc_net c) (oc_calls c) (ucast address) val of
          Done (None # _) \<Rightarrow> (Inr (), d)
        | Done (Some st # _) \<Rightarrow> (Inl (''OPC UA write error: '' @ st), drop_session d)
        | Done [] \<Rightarrow> (Inl ''No write result returned'', drop_session d)
        | Failed e \<Rightarrow> (Inl (''OPC UA write failed: '' @ e), drop_session d)
        | JoinError e \<Rightarrow> (Inl (''Spawn blocking failed: '' @ e), d))"

text \<open>The callback runs between the calls: first what was pushed since the previous one.\<close>
definition deliver :: "opcua_client \<Rightarrow> opcua_client" where
  "deliver c = fold on_data_change (on_pushed (oc_net c) (oc_waits c)) (c\<lparr>oc_waits := oc_waits c + 1\<rparr>)"

definition opcua_ops :: "opcua_client plc_ops" where
  "opcua_ops = \<lparr>plc_connect = opcua_connect, plc_read = (\<lambda>start n c. opcua_read start n (deliver c)),
     plc_write = (\<lambda>reg val c. opcua_write reg val (deliver c)),
     plc_is_connected = oc_session, plc_name = (\<lambda>_. ''opcua'')\<rparr>"


section \<open>The client keeps the contract\<close>

definition opcua_ok :: "opcua_client \<Rightarrow> bool" where
  "opcua_ok c \<longleftrightarrow> (oc_sub_active c \<longrightarrow> oc_session c)"

lemma on_data_change_frame [simp]:
  "oc_session (on_data_change items c) = oc_session c"
  "oc_sub_active (on_data_change items c) = oc_sub_active c"
  "oc_net (on_data_change items c) = oc_net c"
  "oc_last_read_count (on_data_change items c) = oc_last_read_count c"
  by (simp_all add: on_data_change_def)

lemma on_data_changes_frame [simp]:
  "oc_session (fold on_data_change ps c) = oc_session c"
  "oc_sub_active (fold on_data_change ps c) = oc_sub_active c"
  "oc_net (fold on_data_change ps c) = oc_net c"
  "oc_last_read_count (fold on_data_change ps c) = oc_last_read_count c"
  by (induction ps arbitrary: c) simp_all

lemma deliver_frame [simp]:
  "oc_session (deliver c) = oc_session c" "oc_sub_active (deliver c) = oc_sub_active c"
  by (simp_all add: deliver_def)

lemma opcua_connect_ok:
  "opcua_ok c \<Longrightarrow> opcua_ok (snd (opcua_connect c))"
  "is_ok (fst (opcua_connect c)) \<Longrightarrow> oc_session (snd (opcua_connect c))"
  by (auto simp: opcua_connect_def opcua_ok_def Let_def split: blocking.splits if_splits)

lemma poll_server_ok:
  "opcua_ok c \<Longrightarrow> opcua_ok (snd (poll_server start n c))"
  "is_ok (fst (poll_server start n c)) \<Longrightarrow> oc_session c"
  "is_ok (fst (poll_server start n c)) \<Longrightarrow> oc_session (snd (poll_server start n c))"
  by (auto simp: poll_server_def opcua_ok_def Let_def drop_session_def
      split: blocking.splits if_splits)

lemma opcua_read_ok:
  assumes "opcua_ok c"
  shows "opcua_ok (snd (opcua_read start n c))"
    and "is_ok (fst (opcua_read start n c)) \<Longrightarrow> oc_session c"
    and "is_ok (fst (opcua_read start n c)) \<Longrightarrow> oc_session (snd (opcua_read start n c))"
proof -
  have retry: "opcua_ok (c\<lparr>oc_stale_reads := k, oc_sub_active := b\<rparr>)" if "oc_sub_active c" for k b
    using assms that by (simp add: opcua_ok_def)
  show "opcua_ok (snd (opcua_read start n c))"
    and "is_ok (fst (opcua_read start n c)) \<Longrightarrow> oc_session c"
    and "is_ok (fst (opcua_read start n c)) \<Longrightarrow> oc_session (snd (opcua_read start n c))"
    using assms retry poll_server_ok
    by (auto simp: opcua_read_def Let_def opcua_ok_def split: if_splits)
qed

lemma opcua_write_ok:
  "opcua_ok c \<Longrightarrow> opcua_ok (snd (opcua_write reg val c))"
  "is_ok (fst (opcua_write reg val c)) \<Longrightarrow> oc_session c \<and> oc_session (snd (opcua_write reg val c))"
  by (auto simp: opcua_write_def opcua_ok_def Let_def drop_session_def
      split: blocking.splits list.splits option.splits if_splits)

lemma deliver_ok: "opcua_ok (deliver c) = opcua_ok c"
  by (simp add: opcua_ok_def)

interpretation opcua: plc_protocol opcua_ops opcua_ok
proof
  fix c start n reg val
  assume ok: "opcua_ok c"
  have ok': "opcua_ok (deliver c)" using ok by (simp only: deliver_ok)
  show "opcua_ok (snd (plc_connect opcua_ops c))"
    "opcua_ok (snd (plc_read opcua_ops start n c))" "opcua_ok (snd (plc_write opcua_ops reg val c))"
    using ok ok' by (simp_all add: opcua_ops_def opcua_connect_ok opcua_read_ok opcua_write_ok)
  show "plc_is_connected opcua_ops (snd (plc_connect opcua_ops c))"
    if "is_ok (fst (plc_connect opcua_ops c))"
    using that by (simp add: opcua_ops_def opcua_connect_ok)
  show "plc_is_connected opcua_ops (snd (plc_read opcua_ops start n c))"
    if "is_ok (fst (plc_read opcua_ops start n c))"
    using that opcua_read_ok(3) [OF ok'] by (simp add: opcua_ops_def)
  show "plc_is_connected opcua_ops (snd (plc_write opcua_ops reg val c))"
    if "is_ok (fst (plc_write opcua_ops reg val c))"
    using that opcua_write_ok(2) [of reg val "deliver c"] by (simp add: opcua_ops_def)
  show "\<not> is_ok (fst (plc_read opcua_ops start n c))" if "\<not> plc_is_connected opcua_ops c"
    using that opcua_read_ok(2) [OF ok'] by (auto simp: opcua_ops_def)
  show "\<not> is_ok (fst (plc_write opcua_ops reg val c))" if "\<not> plc_is_connected opcua_ops c"
    using that opcua_write_ok(2) [of reg val "deliver c"] by (auto simp: opcua_ops_def)
qed

section \<open>What a read returns\<close>

text \<open>The value a register has after a sequence of notifications: the last one that names it.\<close>
definition latest_value :: "(u32 \<times> variant option) list list \<Rightarrow> u32 \<Rightarrow> u16" where
  "latest_value ps reg = (case find (\<lambda>(h, v). h = reg) (rev (concat ps)) of
     None \<Rightarrow> 0 | Some (h, v) \<Rightarrow> variant_to_u16 v)"

definition cache_value :: "opcua_client \<Rightarrow> u32 \<Rightarrow> u16" where
  "cache_value c reg = (case oc_cache c reg of None \<Rightarrow> 0 | Some v \<Rightarrow> v)"

lemma on_data_change_cache:
  "oc_cache (on_data_change items c) reg =
     (case find (\<lambda>(h, v). h = reg) (rev items) of
        None \<Rightarrow> oc_cache c reg | Some (h, v) \<Rightarrow> Some (variant_to_u16 v))"
proof -
  have "fold (\<lambda>(handle, v) m. m(handle \<mapsto> variant_to_u16 v)) items m reg =
     (case find (\<lambda>(h, v). h = reg) (rev items) of
        None \<Rightarrow> m reg | Some (h, v) \<Rightarrow> Some (variant_to_u16 v))" for m
    by (induction items rule: rev_induct) (auto simp: fold_append)
  then show ?thesis by (simp add: on_data_change_def)
qed

lemma find_append: "find P (xs @ ys) = (case find P xs of None \<Rightarrow> find P ys | Some x \<Rightarrow> Some x)"
  by (induction xs) auto

lemma on_data_changes_cache:
  "oc_cache (fold on_data_change ps c) reg =
     (case find (\<lambda>(h, v). h = reg) (rev (concat ps)) of
        None \<Rightarrow> oc_cache c reg | Some (h, v) \<Rightarrow> Some (variant_to_u16 v))"
  by (induction ps rule: rev_induct)
    (auto simp: on_data_change_cache find_append split: option.split)

lemma on_data_changes_count:
  "oc_update_count (fold on_data_change ps c) =
     oc_update_count c + of_nat (length (filter (\<lambda>p. p \<noteq> []) ps))"
  by (induction ps arbitrary: c) (simp_all add: on_data_change_def ac_simps)

lemma pushed_count:
  assumes "opcua_connect c = (Inr (), c1)" and "filter (\<lambda>p. p \<noteq> []) ps \<noteq> []"
    and "length ps < 2 ^ 64"
  shows "oc_last_read_count (fold on_data_change ps c1) < oc_update_count (fold on_data_change ps c1)"
proof -
  let ?n = "length (filter (\<lambda>p. p \<noteq> []) ps)"
  have c1: "oc_update_count c1 = 0" "oc_last_read_count c1 = 0"
    using assms(1) by (auto simp: opcua_connect_def Let_def split: blocking.splits if_splits)
  have "?n < 2 ^ 64"
    using assms(3) length_filter_le [of "\<lambda>p. p \<noteq> []" ps] by linarith
  then have "(of_nat ?n :: u64) \<noteq> 0"
    using assms(2) nat_dvd_not_less [of ?n "2 ^ 64"] by (simp add: word_of_nat_eq_0_iff)
  then show ?thesis by (simp add: c1 on_data_changes_count word_gt_0)
qed

text \<open>
  C32: in push mode a read returns the latest values the server delivered. After a connection with a
  subscription, once notifications have arrived, a read answers without asking the server: for every
  register of the request, the value of the last notification that names it, and zero for a register
  that none has named.
\<close>
theorem push_read_latest:
  assumes "opcua_connect c = (Inr (), c1)" and "oc_sub_active c1"
    and "filter (\<lambda>p. p \<noteq> []) ps \<noteq> []" and "length ps < 2 ^ 64"
    and "unat start + unat count < 65536"
  shows "fst (opcua_read start count (fold on_data_change ps c1)) =
    Inr (map (\<lambda>k. latest_value ps (of_nat (unat start + k))) [0..<unat count])"
proof -
  let ?d = "fold on_data_change ps c1"
  have c1: "oc_cache c1 = Map.empty"
    using assms(1) by (auto simp: opcua_connect_def Let_def split: blocking.splits if_splits)
  have "oc_last_read_count ?d < oc_update_count ?d"
    by (rule pushed_count [OF assms(1,3,4)])
  moreover have "(case oc_cache ?d reg of None \<Rightarrow> 0 | Some v \<Rightarrow> v) = latest_value ps reg" for reg
    by (auto simp: on_data_changes_cache c1 latest_value_def split: option.split)
  moreover have "register_range start count = map (\<lambda>k. of_nat (unat start + k)) [0..<unat count]"
  proof -
    have "unat (start + count) = unat start + unat count"
      using assms(5) by (simp add: unat_word_ariths)
    then show ?thesis
      by (simp add: register_range_def map_add_upt [symmetric] add.commute)
  qed
  ultimately show ?thesis using assms(2) by (simp add: opcua_read_def cached_values_def)
qed

definition sample_net :: opcua_net where
  "sample_net = \<lparr>on_client = (\<lambda>_. True), on_connects = (\<lambda>_. Done ()),
     on_subscribe = (\<lambda>_. Inr ()), on_monitor = (\<lambda>_. Inr [True]),
     on_reads = (\<lambda>_ regs. Done (map (\<lambda>r. Some (VUInt16 (ucast r))) regs)),
     on_writes = (\<lambda>_ _ _. Done [None]), on_pushed = (\<lambda>_. [])\<rparr>"

definition sample_opcua :: opcua_client where
  "sample_opcua = snd (opcua_connect (opcua_new ''opc.tcp://127.0.0.1:4840'' sample_net))"

lemma sample_opcua_connect:
  "opcua_connect (opcua_new ''opc.tcp://127.0.0.1:4840'' sample_net) = (Inr (), sample_opcua)"
  "oc_sub_active sample_opcua"
  by (simp_all add: sample_opcua_def opcua_connect_def opcua_new_def sample_net_def
      create_data_subscription_def)

theorem push_read_latest_witness:
  "fst (opcua_read 1028 2 (fold on_data_change
      [[(1028, Some (VUInt16 20)), (1029, Some (VDouble 900))], [(1028, Some (VUInt16 25))]]
      sample_opcua)) = Inr [25, 900]"
  using push_read_latest [OF sample_opcua_connect, where start = 1028 and count = 2 and
      ps = "[[(1028, Some (VUInt16 20)), (1029, Some (VDouble 900))], [(1028, Some (VUInt16 25))]]"]
  by (simp add: latest_value_def variant_to_u16_def f64_as_u16_def upt_rec)

lemma set_monitored_registers:
  "reg \<in> set monitored_registers \<longleftrightarrow> (\<exists>m. reg = of_nat m \<and> 1028 \<le> m \<and> m < 1036)"
  unfolding monitored_registers_def set_map set_upt image_iff Bex_def atLeastLessThan_iff by blast

text \<open>The items of a notification are monitored items, by the handles given at their creation.\<close>
definition of_subscription :: "(u32 \<times> variant option) list list \<Rightarrow> bool" where
  "of_subscription ps \<longleftrightarrow> (\<forall>p \<in> set ps. fst ` set p \<subseteq> set monitored_registers)"

text \<open>
  A device whose registers lie outside 1028 to 1035 is read as zero in push mode. Only those eight
  registers are monitored, whatever the device is configured to read, so with notifications of that
  subscription a cached read gives zero for every other register and does not ask the server.
\<close>
theorem unmonitored_reads_zero:
  assumes "opcua_connect c = (Inr (), c1)" and "oc_sub_active c1"
    and "filter (\<lambda>p. p \<noteq> []) ps \<noteq> []" and "length ps < 2 ^ 64" and "of_subscription ps"
    and "unat start + unat count < 65536"
    and "unat start + unat count \<le> 1028 \<or> 1036 \<le> unat start"
  shows "fst (opcua_read start count (fold on_data_change ps c1)) = Inr (replicate (unat count) 0)"
proof -
  let ?d = "fold on_data_change ps c1"
  have range: "oc_cache ?d reg = None" if r: "reg \<in> set (register_range start count)" for reg
  proof -
    have "reg \<notin> fst ` set (concat ps)"
    proof
      assume "reg \<in> fst ` set (concat ps)"
      then have "reg \<in> set monitored_registers"
        using assms(5) by (auto simp: of_subscription_def)
      then obtain m where m: "reg = of_nat m" "1028 \<le> m" "m < 1036"
        unfolding set_monitored_registers by blast
      obtain k where k: "reg = of_nat k" "unat start \<le> k" "k < unat start + unat count"
        using r assms(6) unfolding register_range_def set_map set_upt
        by (auto simp: unat_word_ariths)
      have "m = k"
        using m k assms(6) by (simp add: word_of_nat_eq_iff take_bit_nat_eq_self)
      with m k assms(7) show False by auto
    qed
    then have "find (\<lambda>(h, v). h = reg) (rev (concat ps)) = None"
      by (force simp: find_None_iff)
    moreover have "oc_cache c1 = Map.empty"
      using assms(1) by (auto simp: opcua_connect_def Let_def split: blocking.splits if_splits)
    ultimately show ?thesis by (simp add: on_data_changes_cache)
  qed
  have "length (register_range start count) = unat count"
    using assms(6) by (simp add: register_range_def unat_word_ariths)
  then have "cached_values start count ?d = replicate (unat count) 0"
    unfolding cached_values_def using range by (intro replicate_eqI) auto
  moreover have "oc_last_read_count ?d < oc_update_count ?d"
    by (rule pushed_count [OF assms(1,3,4)])
  ultimately show ?thesis using assms(2) by (simp add: opcua_read_def)
qed

theorem unmonitored_reads_zero_witness:
  "fst (opcua_read 2000 2 (fold on_data_change [[(1028, Some (VUInt16 20))]] sample_opcua)) =
     Inr [0, 0]"
proof -
  have "replicate 2 (0 :: u16) = [0, 0]" by (simp add: numeral_2_eq_2)
  then show ?thesis
    using unmonitored_reads_zero [OF sample_opcua_connect, where start = 2000 and count = 2 and
        ps = "[[(1028, Some (VUInt16 20))]]"]
    by (simp add: of_subscription_def monitored_registers_def upt_rec)
qed

section \<open>A stale subscription\<close>

fun read_times :: "nat \<Rightarrow> u16 \<Rightarrow> u16 \<Rightarrow> opcua_client \<Rightarrow> u16 list result list \<times> opcua_client" where
  "read_times 0 start count c = ([], c)"
| "read_times (Suc n) start count c =
     (let (r, c) = opcua_read start count c; (rs, c) = read_times n start count c in (r # rs, c))"

text \<open>Every poll of the server succeeds and nothing is delivered any more.\<close>
definition polls_succeed :: "opcua_client \<Rightarrow> bool" where
  "polls_succeed c \<longleftrightarrow> oc_session c \<and> oc_update_count c \<le> oc_last_read_count c \<and>
     (\<forall>n regs. \<exists>vs. on_reads (oc_net c) n regs = Done vs)"

definition polled :: "nat \<Rightarrow> u16 \<Rightarrow> u16 \<Rightarrow> opcua_client \<Rightarrow> u16 list result" where
  "polled n start count c = (case on_reads (oc_net c) n (register_range start count) of
     Done vs \<Rightarrow> Inr (map variant_to_u16 vs) | Failed e \<Rightarrow> Inl e | JoinError e \<Rightarrow> Inl e)"

lemma stale_read:
  assumes "polls_succeed c"
  shows "opcua_read start count c = (polled (oc_calls c) start count c,
    c\<lparr>oc_calls := oc_calls c + 1,
      oc_stale_reads := (if oc_sub_active c then oc_stale_reads c + 1 else oc_stale_reads c),
      oc_sub_active := (oc_sub_active c \<and> \<not> 5 < oc_stale_reads c + 1)\<rparr>)"
proof -
  obtain vs where "on_reads (oc_net c) (oc_calls c) (register_range start count) = Done vs"
    using assms by (auto simp: polls_succeed_def)
  moreover have "oc_session c" "\<not> oc_last_read_count c < oc_update_count c"
    using assms by (auto simp: polls_succeed_def)
  ultimately show ?thesis
    by (cases c) (simp add: opcua_read_def poll_server_def polled_def Let_def)
qed

lemma read_times_stale:
  assumes "polls_succeed c" and "unat (oc_stale_reads c) \<le> 6"
    and "oc_sub_active c \<longleftrightarrow> unat (oc_stale_reads c) \<le> 5"
  shows "fst (read_times n start count c) =
      map (\<lambda>k. polled (oc_calls c + k) start count c) [0..<n] \<and>
    (oc_sub_active (snd (read_times n start count c)) \<longleftrightarrow> unat (oc_stale_reads c) + n \<le> 5)"
  using assms
proof (induction n arbitrary: c)
  case (Suc n)
  let ?d = "snd (opcua_read start count c)"
  have small: "unat (oc_stale_reads c + 1) = unat (oc_stale_reads c) + 1"
    using Suc.prems(2) by (simp add: unat_word_ariths)
  have five: "5 < oc_stale_reads c + 1 \<longleftrightarrow> 5 < unat (oc_stale_reads c + 1)"
    by (simp add: word_less_nat_alt)
  have d: "polls_succeed ?d" "unat (oc_stale_reads ?d) = (if oc_sub_active c
      then unat (oc_stale_reads c) + 1 else unat (oc_stale_reads c))"
    "oc_sub_active ?d \<longleftrightarrow> oc_sub_active c \<and> unat (oc_stale_reads c) + 1 \<le> 5"
    "oc_calls ?d = oc_calls c + 1" "oc_net ?d = oc_net c"
    using Suc.prems(1) small five by (auto simp: stale_read polls_succeed_def)
  have same: "polled k start count ?d = polled k start count c" for k
    using d(5) by (simp add: polled_def)
  have "fst (opcua_read start count c) = polled (oc_calls c) start count c"
    using Suc.prems(1) by (simp add: stale_read)
  moreover have "fst (read_times n start count ?d) =
        map (\<lambda>k. polled (oc_calls c + 1 + k) start count c) [0..<n] \<and>
      (oc_sub_active (snd (read_times n start count ?d)) \<longleftrightarrow>
        unat (oc_stale_reads ?d) + n \<le> 5)"
    using Suc.IH [OF d(1)] d(2,3,4) Suc.prems(2,3) same by auto
  ultimately show ?case
    using Suc.prems(2,3) d(2)
    by (auto simp: Let_def upt_conv_Cons map_Suc_upt [symmetric] o_def split: prod.splits
        simp del: upt_Suc)
qed simp

text \<open>
  A dead subscription does not freeze the values. When the server pushes nothing any more while
  polling it still works, every read, from the first one on, returns what the server answers to a poll
  of the requested registers, and from the sixth such read on the subscription is given up.
\<close>
theorem stale_subscription_polled:
  assumes "polls_succeed c" and "oc_sub_active c" and "oc_stale_reads c = 0"
  shows "fst (read_times n start count c) =
      map (\<lambda>k. polled (oc_calls c + k) start count c) [0..<n] \<and>
    (oc_sub_active (snd (read_times n start count c)) \<longleftrightarrow> n \<le> 5)"
  using read_times_stale [OF assms(1), of n start count] assms(2,3) by simp

theorem stale_subscription_polled_witness:
  "fst (read_times 2 1028 2 sample_opcua) = [Inr [1028, 1029], Inr [1028, 1029]]"
proof -
  have net: "oc_net sample_opcua = sample_net"
    by (simp add: sample_opcua_def opcua_connect_def opcua_new_def sample_net_def)
  have "polls_succeed sample_opcua"
    by (simp add: polls_succeed_def sample_opcua_def opcua_connect_def opcua_new_def sample_net_def
        create_data_subscription_def)
  moreover have "oc_stale_reads sample_opcua = 0"
    by (simp add: sample_opcua_def opcua_connect_def opcua_new_def sample_net_def)
  ultimately show ?thesis
    using stale_subscription_polled [OF _ sample_opcua_connect(2), where n = 2 and start = 1028
        and count = 2]
    by (simp add: polled_def net sample_net_def register_range_def variant_to_u16_def upt_rec)
qed

text \<open>
  An OPC UA device task is in its poll and write loop only while its client holds a session,
  whatever the server answers and pushes.
\<close>
theorem opcua_task_connected:
  assumes "task_run L opcua_ops dev (start_task (opcua_new url net) w) es t"
    and "tk_phase t = Polling"
  shows "oc_session (tk_client t)"
proof -
  have "opcua_ok (opcua_new url net)" by (simp add: opcua_ok_def opcua_new_def)
  from opcua.polling_connected [OF this assms] show ?thesis by (simp add: opcua_ops_def)
qed

theorem opcua_task_connected_witness:
  "oc_session (tk_client (on_connect opcua_ops sample_device
     (start_task (opcua_new ''opc.tcp://127.0.0.1:4840'' sample_net) sample_world)))"
proof (rule opcua_task_connected)
  let ?s = "start_task (opcua_new ''opc.tcp://127.0.0.1:4840'' sample_net) sample_world"
  have "task_step sample_libs opcua_ops sample_device ?s Attempt
      (on_connect opcua_ops sample_device (?s\<lparr>tk_world := sample_world\<rparr>))"
    by (rule do_attempt) (simp add: start_task_def)
  moreover have "?s\<lparr>tk_world := sample_world\<rparr> = ?s" by (simp add: start_task_def)
  ultimately show "task_run sample_libs opcua_ops sample_device ?s ([] @ [Attempt])
      (on_connect opcua_ops sample_device ?s)"
    by (intro run_more [OF run_none]) simp
  show "tk_phase (on_connect opcua_ops sample_device ?s) = Polling"
    by (simp add: on_connect_def opcua_ops_def start_task_def sample_opcua_connect sample_device_def)
qed

end
