(* ===== verification/State.thy ===== *)
theory State
  imports Protocol Modbus Opcua
begin

text \<open>
  The configuration file and the shared state of the server: \<open>server/src/config.rs\<close> and
  \<open>server/src/state.rs\<close>. The state holds the database, the device registry with its polling tasks,
  the failed-login counters and the session store. A polling task is a number here: what it does is
  \<open>task_step\<close> of the theory \<open>Protocol\<close>; the registry only starts it, aborts it and asks whether it
  has finished. The write channel of a task dies with it.
\<close>

section \<open>Configuration\<close>

record server_config =
  sc_host :: string
  sc_port :: u16
  sc_jwt_secret :: string
  sc_tls_cert :: "string option"
  sc_tls_key :: "string option"

record app_config =
  ac_server :: server_config
  ac_database_path :: string
  ac_devices :: "device_config list"

text \<open>The file as the TOML parser delivers it: the secret may be absent.\<close>
record raw_config =
  raw_host :: string
  raw_port :: u16
  raw_jwt_secret :: "string option"
  raw_tls_cert :: "string option"
  raw_tls_key :: "string option"
  raw_path :: string
  raw_devices :: "device_config list"

definition default_jwt_secret :: string where
  "default_jwt_secret = ''vyuh-hmi-CHANGE-ME-insecure-default''"

definition config_of_raw :: "raw_config \<Rightarrow> app_config" where
  "config_of_raw r = \<lparr>ac_server = \<lparr>sc_host = raw_host r, sc_port = raw_port r,
       sc_jwt_secret = (case raw_jwt_secret r of None \<Rightarrow> default_jwt_secret | Some s \<Rightarrow> s),
       sc_tls_cert = raw_tls_cert r, sc_tls_key = raw_tls_key r\<rparr>,
     ac_database_path = raw_path r, ac_devices = raw_devices r\<rparr>"

text \<open>
  \<open>AppConfig::load\<close>: the panics are \<open>Inl\<close>; the second component says whether the warning about a
  placeholder secret is logged.
\<close>
definition load_config ::
    "(string \<Rightarrow> string result) \<Rightarrow> (string \<Rightarrow> raw_config result) \<Rightarrow> string \<Rightarrow>
     (app_config \<times> bool) result" where
  "load_config read_to_string from_toml path =
     (case read_to_string path of
        Inl e \<Rightarrow> Inl (''Failed to read config '' @ quoted path @ '': '' @ e)
      | Inr content \<Rightarrow>
        (case from_toml content of
           Inl e \<Rightarrow> Inl (''Failed to parse config '' @ quoted path @ '': '' @ e)
         | Inr raw \<Rightarrow>
           (let config = config_of_raw raw; secret = sc_jwt_secret (ac_server config) in
            if length secret < 32
            then Inl (''jwt_secret must be at least 32 characters (got '' @ show_nat (length secret) @
              ''). Update config.toml.'')
            else Inr (config, contains ''CHANGE-ME'' secret \<or> contains ''change-me'' secret))))"

section \<open>The shared state\<close>

record device_handle =
  dh_write_tx :: nat
  dh_task :: nat
  dh_config :: device_config

record app_state =
  app_db :: world
  app_devices :: "(string \<times> device_handle) list"
  app_config :: app_config
  jwt_secret :: string
  login_attempts :: "string \<rightharpoonup> u32 \<times> time"
  sessions :: "string \<rightharpoonup> string \<times> int"
  app_tasks :: "device_config list"
  app_stopped :: "nat set"

definition app_new :: "world \<Rightarrow> app_config \<Rightarrow> app_state" where
  "app_new db config = \<lparr>app_db = db, app_devices = [], app_config = config,
     jwt_secret = sc_jwt_secret (ac_server config), login_attempts = Map.empty,
     sessions = Map.empty, app_tasks = [], app_stopped = {}\<rparr>"

text \<open>Running a database operation on the shared state.\<close>
definition on_db :: "(world \<Rightarrow> 'a \<times> world) \<Rightarrow> app_state \<Rightarrow> 'a \<times> app_state" where
  "on_db f a = (let (x, w) = f (app_db a) in (x, a\<lparr>app_db := w\<rparr>))"

definition do_db :: "(world \<Rightarrow> world) \<Rightarrow> app_state \<Rightarrow> app_state" where
  "do_db f a = a\<lparr>app_db := f (app_db a)\<rparr>"

lemma on_db_simps [simp]:
  "fst (on_db f a) = fst (f (app_db a))"
  "app_db (snd (on_db f a)) = snd (f (app_db a))"
  "app_devices (snd (on_db f a)) = app_devices a" "jwt_secret (snd (on_db f a)) = jwt_secret a"
  "login_attempts (snd (on_db f a)) = login_attempts a" "sessions (snd (on_db f a)) = sessions a"
  "app_tasks (snd (on_db f a)) = app_tasks a" "app_stopped (snd (on_db f a)) = app_stopped a"
  by (simp_all add: on_db_def split: prod.split)

lemma do_db_simps [simp]:
  "app_db (do_db f a) = f (app_db a)" "app_devices (do_db f a) = app_devices a"
  "jwt_secret (do_db f a) = jwt_secret a" "login_attempts (do_db f a) = login_attempts a"
  "sessions (do_db f a) = sessions a" "app_tasks (do_db f a) = app_tasks a"
  "app_stopped (do_db f a) = app_stopped a"
  by (simp_all add: do_db_def)

text \<open>\<open>tokio::spawn\<close> of a polling task, its handle's \<open>abort\<close> and \<open>is_finished\<close>.\<close>
definition spawn_polling :: "device_config \<Rightarrow> app_state \<Rightarrow> nat \<times> app_state" where
  "spawn_polling dev a = (length (app_tasks a), a\<lparr>app_tasks := app_tasks a @ [dev]\<rparr>)"

definition abort_task :: "nat \<Rightarrow> app_state \<Rightarrow> app_state" where
  "abort_task t a = a\<lparr>app_stopped := insert t (app_stopped a)\<rparr>"

definition is_finished :: "app_state \<Rightarrow> nat \<Rightarrow> bool" where
  "is_finished a t \<longleftrightarrow> t \<in> app_stopped a"

section \<open>Loading the configuration\<close>

text \<open>
  The server never starts with a short signing secret, and it does start with the one printed in
  its own source: a loaded configuration has a secret of at least 32 characters, and a file without a
  secret loads with the public default, with a warning only.
\<close>
theorem load_config_secret:
  assumes "read_to_string path = Inr text" and "from_toml text = Inr raw"
  shows "case load_config read_to_string from_toml path of
      Inl _ \<Rightarrow> (\<exists>s. raw_jwt_secret raw = Some s \<and> length s < 32)
    | Inr (config, warned) \<Rightarrow> 32 \<le> length (sc_jwt_secret (ac_server config)) \<and>
        (raw_jwt_secret raw = None \<longrightarrow>
           sc_jwt_secret (ac_server config) = default_jwt_secret \<and> warned)"
proof -
  have "contains ''CHANGE-ME'' default_jwt_secret" by code_simp
  moreover have "length default_jwt_secret = 35" by (simp add: default_jwt_secret_def)
  ultimately show ?thesis
    using assms by (auto simp: load_config_def config_of_raw_def Let_def split: option.split)
qed

definition sample_raw :: raw_config where
  "sample_raw = \<lparr>raw_host = ''0.0.0.0'', raw_port = 3000, raw_jwt_secret = None,
     raw_tls_cert = None, raw_tls_key = None, raw_path = ''hmi_data.db'',
     raw_devices = [sample_device]\<rparr>"

theorem load_config_secret_witness:
  "case load_config (\<lambda>_. Inr ''toml'') (\<lambda>_. Inr sample_raw) ''config.toml'' of
     Inl _ \<Rightarrow> False
   | Inr (config, warned) \<Rightarrow> sc_jwt_secret (ac_server config) = default_jwt_secret \<and> warned"
  using load_config_secret [where read_to_string = "\<lambda>_. Inr ''toml''" and path = "''config.toml''"
      and from_toml = "\<lambda>_. Inr sample_raw", OF refl refl]
  by (auto simp: sample_raw_def split: sum.splits)

definition sample_config :: app_config where
  "sample_config = config_of_raw sample_raw"

definition sample_app :: app_state where
  "sample_app = app_new sample_world sample_config"

end
