(* ===== verification/Auth.thy ===== *)
theory Auth
  imports State
begin

text \<open>
  Authentication, roles and the audit trail: \<open>server/src/auth.rs\<close>. The tables \<open>users\<close> and
  \<open>audit_trail\<close>, password and token handling over the parameters argon2 and jsonwebtoken, the
  failed-login counters, the session store, the three middlewares, and the handlers. A handler is a
  function on the shared state that returns the response; a middleware takes the rest of the route
  as such a function. \<open>admit\<close> is what the middlewares decide, as one function of the required role;
  the locale \<open>guard\<close> is the contract they have in common, interpreted for each of them.
\<close>

section \<open>Constants\<close>

definition TOKEN_EXPIRY_HOURS :: int where "TOKEN_EXPIRY_HOURS = 8"
definition MAX_LOGIN_ATTEMPTS :: u32 where "MAX_LOGIN_ATTEMPTS = 5"
definition LOCKOUT_DURATION_SECS :: int where "LOCKOUT_DURATION_SECS = 900"
definition MIN_PASSWORD_LENGTH :: nat where "MIN_PASSWORD_LENGTH = 8"

text \<open>\<open>Duration::hours(n)\<close> in nanoseconds.\<close>
definition hours :: "int \<Rightarrow> time" where "hours n = n * 3600 * 1000000000"

section \<open>Audit trail\<close>

definition audit_columns ::
    "string \<times> string \<times> string \<times> string option \<times> string \<times> string \<times> string option \<Rightarrow> int \<Rightarrow>
     audit_entry" where
  "audit_columns x i = (case x of (user_id, username, action, device_id, details, now, ip) \<Rightarrow>
     \<lparr>ae_id = i, ae_user_id = user_id, ae_username = username, ae_action = action,
      ae_device_id = device_id, ae_details = details, ae_timestamp = now, ae_ip_address = ip\<rparr>)"

interpretation audit_ids: id_table ae_id audit_columns
  by unfold_locales (simp add: audit_columns_def split: prod.splits)

definition log_audit ::
    "libs \<Rightarrow> string \<Rightarrow> string \<Rightarrow> string \<Rightarrow> string option \<Rightarrow> string \<Rightarrow> string option \<Rightarrow> world \<Rightarrow> world"
  where
  "log_audit L user_id username action device_id details ip w =
     (let (t, w) = utc_now w; now = to_rfc3339 L t; (e, w) = sql w in
      case e of Some _ \<Rightarrow> w
      | None \<Rightarrow> w\<lparr>audit_trail := snd (tbl_insert
          (audit_columns (user_id, username, action, device_id, details, now, ip))
          (audit_trail w))\<rparr>)"

text \<open>
  The query text that \<open>build_audit_query\<close> assembles and the values bound to it, and the rows such a
  query selects.
\<close>
definition build_audit_query :: "audit_query_params \<Rightarrow> string \<times> string list" where
  "build_audit_query p =
     (let uid = (case uq_user_id p of None \<Rightarrow> [] | Some x \<Rightarrow> [(''user_id = ?'', x)]);
          did = (case uq_device_id p of None \<Rightarrow> [] | Some x \<Rightarrow> [(''device_id = ?'', x)]);
          act = (case uq_action p of None \<Rightarrow> [] | Some x \<Rightarrow> [(''action = ?'', x)]);
          conditions = map fst (uid @ did @ act);
          binds = map snd (uid @ did @ act);
          where_clause = (if conditions = [] then ''''
            else ''WHERE '' @ concat (intersperse '' AND '' conditions))
      in (''SELECT id, user_id, username, action, device_id, details, timestamp, ip_address'' @
            [CHR 0x0A] @ ''         FROM audit_trail '' @ where_clause @ '' ORDER BY id DESC LIMIT ?'',
          binds))"

definition audit_where :: "audit_query_params \<Rightarrow> audit_entry \<Rightarrow> bool" where
  "audit_where p e \<longleftrightarrow>
     (case uq_user_id p of None \<Rightarrow> True | Some x \<Rightarrow> ae_user_id e = x) \<and>
     (case uq_device_id p of None \<Rightarrow> True | Some x \<Rightarrow> ae_device_id e = Some x) \<and>
     (case uq_action p of None \<Rightarrow> True | Some x \<Rightarrow> ae_action e = x)"

section \<open>Passwords and tokens\<close>

definition hash_password :: "libs \<Rightarrow> string \<Rightarrow> world \<Rightarrow> string result \<times> world" where
  "hash_password L password w =
     (let (salt, w) = new_salt w in
      (case argon2_hash L password salt of Inr h \<Rightarrow> Inr h | Inl e \<Rightarrow> Inl (''Hash failed: '' @ e), w))"

definition verify_password :: "libs \<Rightarrow> string \<Rightarrow> string \<Rightarrow> bool" where
  "verify_password L password hash \<longleftrightarrow>
     (if \<not> phc_parses L hash then False else argon2_verify L password hash)"

text \<open>\<open>x as usize\<close> of a signed 64-bit integer.\<close>
definition as_usize :: "int \<Rightarrow> int" where "as_usize i = i mod 2 ^ 64"

definition create_token ::
    "libs \<Rightarrow> string \<Rightarrow> string \<Rightarrow> string \<Rightarrow> string \<Rightarrow> world \<Rightarrow> (string \<times> time \<times> string) result \<times> world"
  where
  "create_token L user_id username role secret w =
     (let (session_id, w) = new_uuid w;
          (now, w) = utc_now w; expires_at = now + hours TOKEN_EXPIRY_HOURS;
          (now2, w) = utc_now w;
          claims = \<lparr>cl_sub = username, cl_role = role, cl_user_id = user_id,
            cl_exp = as_usize (timestamp expires_at), cl_iat = as_usize (timestamp now2),
            cl_session_id = Some session_id\<rparr>
      in (case jwt_encode L claims secret of
            Inl e \<Rightarrow> Inl (''Token creation failed: '' @ e)
          | Inr token \<Rightarrow> Inr (token, expires_at, session_id), w))"

definition validate_token :: "libs \<Rightarrow> string \<Rightarrow> string \<Rightarrow> world \<Rightarrow> claims result \<times> world" where
  "validate_token L token secret w =
     (let (now, w) = utc_now w in
      (case jwt_decode L token secret now of
         Inr claims \<Rightarrow> Inr claims | Inl e \<Rightarrow> Inl (''Invalid token: '' @ e), w))"

definition validate_password_complexity :: "libs \<Rightarrow> string \<Rightarrow> unit result" where
  "validate_password_complexity L password =
     (if length password < MIN_PASSWORD_LENGTH
      then Inl (''Password must be at least '' @ show_nat MIN_PASSWORD_LENGTH @ '' characters'')
      else (let has_upper = (\<exists>c \<in> set (chars password). is_uppercase L c);
                has_lower = (\<exists>c \<in> set (chars password). is_lowercase L c);
                has_digit = (\<exists>c \<in> set (chars password). 48 \<le> c \<and> c \<le> 57) in
            if \<not> has_upper \<or> \<not> has_lower \<or> \<not> has_digit
            then Inl ''Password must contain uppercase, lowercase, and a digit'' else Inr ()))"

section \<open>Users\<close>

text \<open>
  \<open>INSERT INTO users\<close>: \<open>id\<close> is the primary key and \<open>username\<close> is unique; \<open>is_active\<close> defaults
  to one. The error text of a failed statement is the engine's.
\<close>
definition insert_user ::
    "string \<Rightarrow> string \<Rightarrow> string \<Rightarrow> string \<Rightarrow> string \<Rightarrow> world \<Rightarrow> unit result \<times> world" where
  "insert_user i username hash role now w =
     (let (e, w) = sql w in
      case e of Some e \<Rightarrow> (Inl e, w)
      | None \<Rightarrow>
        if \<exists>u \<in> set (users w). us_username u = username
        then (Inl ''UNIQUE constraint failed: users.username'', w)
        else if \<exists>u \<in> set (users w). us_id u = i
        then (Inl ''UNIQUE constraint failed: users.id'', w)
        else (Inr (), w\<lparr>users := users w @ [\<lparr>us_id = i, us_username = username,
          us_password_hash = hash, us_role = role, us_created_at = now, us_is_active = 1\<rparr>]\<rparr>))"

definition user_named :: "string \<Rightarrow> world \<Rightarrow> user_row option" where
  "user_named name w = find (\<lambda>u. us_username u = name) (users w)"

text \<open>One default account: \<open>None\<close> is the panic when hashing fails.\<close>
definition seed_user :: "libs \<Rightarrow> string \<Rightarrow> string \<Rightarrow> string \<Rightarrow> string \<Rightarrow> string \<Rightarrow> world \<Rightarrow> world option"
  where
  "seed_user L i username password role now w =
     (case hash_password L password w of
        (Inl e, w) \<Rightarrow> None
      | (Inr hash, w) \<Rightarrow> Some (snd (insert_user i username hash role now w)))"

definition init_auth_tables :: "libs \<Rightarrow> world \<Rightarrow> world option" where
  "init_auth_tables L w =
     (case create_tables 2 w of None \<Rightarrow> None
      | Some w \<Rightarrow>
       (let (e, w) = sql w; count = (case e of Some _ \<Rightarrow> 0 | None \<Rightarrow> length (users w)) in
        if count \<noteq> 0 then Some w
        else
         (let (admin_id, w) = new_uuid w in
          case hash_password L ''admin123'' w of
            (Inl e, w) \<Rightarrow> None
          | (Inr hash, w) \<Rightarrow>
           (let (t, w) = utc_now w; now = to_rfc3339 L t;
                w = snd (insert_user admin_id ''admin'' hash ''admin'' now w);
                (op_id, w) = new_uuid w in
            case seed_user L op_id ''operator'' ''operator123'' ''operator'' now w of
              None \<Rightarrow> None
            | Some w \<Rightarrow>
             (let (v_id, w) = new_uuid w in
              seed_user L v_id ''viewer'' ''viewer123'' ''viewer'' now w)))))"

section \<open>Failed logins\<close>

text \<open>\<open>Instant::elapsed().as_secs()\<close>.\<close>
definition elapsed_secs :: "time \<Rightarrow> time \<Rightarrow> int" where
  "elapsed_secs now since = (if now \<le> since then 0 else (now - since) div 1000000000)"

definition check_login_throttle :: "string \<Rightarrow> app_state \<Rightarrow> unit result \<times> app_state" where
  "check_login_throttle username a =
     (case login_attempts a username of
        None \<Rightarrow> (Inr (), a)
      | Some (count, first_failure) \<Rightarrow>
        if count \<ge> MAX_LOGIN_ATTEMPTS then
          (let (now, a) = on_db instant_now a; elapsed = elapsed_secs now first_failure in
           if elapsed < LOCKOUT_DURATION_SECS
           then (Inl (''Account locked due to '' @ show_u32 count @
             '' failed attempts. Try again in '' @ show_int (LOCKOUT_DURATION_SECS - elapsed) @
             '' seconds.''), a)
           else (Inr (), a\<lparr>login_attempts := (login_attempts a)(username := None)\<rparr>))
        else (Inr (), a))"

definition record_failed_login :: "string \<Rightarrow> app_state \<Rightarrow> app_state" where
  "record_failed_login username a =
     (let (now, a) = on_db instant_now a;
          (count, since) = (case login_attempts a username of None \<Rightarrow> (0, now) | Some e \<Rightarrow> e);
          count = count + 1;
          (since, a) = (if count = 1 then on_db instant_now a else (since, a))
      in a\<lparr>login_attempts := (login_attempts a)(username \<mapsto> (count, since))\<rparr>)"

definition clear_failed_login :: "string \<Rightarrow> app_state \<Rightarrow> app_state" where
  "clear_failed_login username a = a\<lparr>login_attempts := (login_attempts a)(username := None)\<rparr>"

section \<open>Sessions\<close>

definition register_session :: "string \<Rightarrow> string \<Rightarrow> int \<Rightarrow> app_state \<Rightarrow> app_state" where
  "register_session session_id user_id expires_epoch a =
     a\<lparr>sessions := (sessions a)(session_id \<mapsto> (user_id, expires_epoch))\<rparr>"

definition is_session_valid :: "string \<Rightarrow> app_state \<Rightarrow> bool \<times> app_state" where
  "is_session_valid session_id a =
     (case sessions a session_id of
        Some (_, expires) \<Rightarrow>
          (let (now, a) = on_db utc_now a in (timestamp now < expires, a))
      | None \<Rightarrow> (False, a))"

definition revoke_session :: "string \<Rightarrow> app_state \<Rightarrow> app_state" where
  "revoke_session session_id a = a\<lparr>sessions := (sessions a)(session_id := None)\<rparr>"

definition revoke_all_sessions :: "string \<Rightarrow> app_state \<Rightarrow> app_state" where
  "revoke_all_sessions user_id a = a\<lparr>sessions := (\<lambda>s. case sessions a s of
     None \<Rightarrow> None | Some (uid, e) \<Rightarrow> if uid \<noteq> user_id then Some (uid, e) else None)\<rparr>"

section \<open>Middlewares\<close>

text \<open>
  Request headers by lower-case name, the first value each. \<open>to_str\<close> succeeds on visible ASCII.
\<close>
type_synonym headers = "string \<rightharpoonup> string"

definition to_str :: "string \<Rightarrow> string option" where
  "to_str v = (if \<forall>c \<in> set v. c = CHR 0x09 \<or> (32 \<le> (of_char c :: nat) \<and> of_char c < (127 :: nat))
     then Some v else None)"

definition extract_token :: "headers \<Rightarrow> string option" where
  "extract_token h = (case h ''authorization'' of None \<Rightarrow> None
     | Some v \<Rightarrow> (case to_str v of None \<Rightarrow> None | Some v \<Rightarrow> strip_prefix ''Bearer '' v))"

definition json_error :: "nat \<Rightarrow> string \<Rightarrow> http_response" where
  "json_error st msg =
     \<lparr>status = st, body = JObj [(''success'', JBool False), (''error'', JStr msg)]\<rparr>"

definition json_data :: "nat \<Rightarrow> json \<Rightarrow> http_response" where
  "json_data st d = \<lparr>status = st, body = JObj [(''success'', JBool True), (''data'', d)]\<rparr>"

type_synonym route = "claims \<Rightarrow> app_state \<Rightarrow> http_response \<times> app_state"

text \<open>The check of the claims' session, where they carry one.\<close>
definition session_live :: "claims \<Rightarrow> app_state \<Rightarrow> bool \<times> app_state" where
  "session_live claims a =
     (case cl_session_id claims of None \<Rightarrow> (True, a) | Some sid \<Rightarrow> is_session_valid sid a)"

definition auth_middleware ::
    "libs \<Rightarrow> headers \<Rightarrow> route \<Rightarrow> app_state \<Rightarrow> http_response \<times> app_state" where
  "auth_middleware L h nxt a =
     (case extract_token h of
        None \<Rightarrow> (json_error 401 ''Missing Authorization header'', a)
      | Some token \<Rightarrow>
        (case on_db (validate_token L token (jwt_secret a)) a of
           (Inr claims, a) \<Rightarrow>
             (case session_live claims a of
                (False, a) \<Rightarrow> (json_error 401 ''Session expired or revoked'', a)
              | (True, a) \<Rightarrow> nxt claims a)
         | (Inl e, a) \<Rightarrow> (json_error 401 e, a)))"

definition require_operator ::
    "libs \<Rightarrow> headers \<Rightarrow> route \<Rightarrow> app_state \<Rightarrow> http_response \<times> app_state" where
  "require_operator L h nxt a =
     (case extract_token h of
        None \<Rightarrow> (json_error 401 ''Missing Authorization header'', a)
      | Some token \<Rightarrow>
        (case on_db (validate_token L token (jwt_secret a)) a of
           (Inr claims, a) \<Rightarrow>
             (case session_live claims a of
                (False, a) \<Rightarrow> (json_error 401 ''Session expired or revoked'', a)
              | (True, a) \<Rightarrow>
                  let role = role_from_str (cl_role claims) in
                  if \<not> has_permission role Operator
                  then (json_error 403 ''Operator or Admin role required'', a)
                  else nxt claims a)
         | (Inl e, a) \<Rightarrow> (json_error 401 e, a)))"

definition require_admin ::
    "libs \<Rightarrow> headers \<Rightarrow> route \<Rightarrow> app_state \<Rightarrow> http_response \<times> app_state" where
  "require_admin L h nxt a =
     (case extract_token h of
        None \<Rightarrow> (json_error 401 ''Missing Authorization header'', a)
      | Some token \<Rightarrow>
        (case on_db (validate_token L token (jwt_secret a)) a of
           (Inr claims, a) \<Rightarrow>
             (case session_live claims a of
                (False, a) \<Rightarrow> (json_error 401 ''Session expired or revoked'', a)
              | (True, a) \<Rightarrow>
                  let role = role_from_str (cl_role claims) in
                  if \<not> has_permission role Admin
                  then (json_error 403 ''Admin role required'', a)
                  else nxt claims a)
         | (Inl e, a) \<Rightarrow> (json_error 401 e, a)))"

section \<open>Handlers\<close>

definition login :: "libs \<Rightarrow> login_request \<Rightarrow> app_state \<Rightarrow> http_response \<times> app_state" where
  "login L req a =
     (case check_login_throttle (lr_username req) a of
        (Inl msg, a) \<Rightarrow> (json_error 429 msg, a)
      | (Inr _, a) \<Rightarrow>
       (case on_db sql a of
          (Some e, a) \<Rightarrow> (json_error 500 ''Internal server error'', a)
        | (None, a) \<Rightarrow>
         (case user_named (lr_username req) (app_db a) of
            None \<Rightarrow> (json_error 401 ''Invalid credentials'', record_failed_login (lr_username req) a)
          | Some user \<Rightarrow>
            if us_is_active user = 0 then (json_error 403 ''Account disabled'', a)
            else if \<not> verify_password L (lr_password req) (us_password_hash user)
            then (json_error 401 ''Invalid credentials'', record_failed_login (lr_username req) a)
            else
             (case on_db (create_token L (us_id user) (us_username user) (us_role user) (jwt_secret a))
                 (clear_failed_login (lr_username req) a) of
                (Inl e, a) \<Rightarrow> (json_error 500 e, a)
              | (Inr (token, expires_at, session_id), a) \<Rightarrow>
                  (let a = register_session session_id (us_id user) (timestamp expires_at) a;
                       a = do_db (log_audit L (us_id user) (us_username user) ''login'' None ''{}'' None) a
                   in (json_data 200 (JObj [(''token'', JStr token),
                         (''user'', JObj [(''id'', JStr (us_id user)),
                            (''username'', JStr (us_username user)), (''role'', JStr (us_role user))]),
                         (''expires_at'', JStr (to_rfc3339 L expires_at))]), a))))))"

definition verify_token_handler :: "libs \<Rightarrow> headers \<Rightarrow> app_state \<Rightarrow> http_response \<times> app_state" where
  "verify_token_handler L h a =
     (case extract_token h of
        None \<Rightarrow> (json_error 401 ''Missing token'', a)
      | Some token \<Rightarrow>
        (case on_db (validate_token L token (jwt_secret a)) a of
           (Inr claims, a) \<Rightarrow>
             (case session_live claims a of
                (False, a) \<Rightarrow> (json_error 401 ''Session revoked'', a)
              | (True, a) \<Rightarrow> (json_data 200 (JObj [(''user_id'', JStr (cl_user_id claims)),
                   (''username'', JStr (cl_sub claims)), (''role'', JStr (cl_role claims))]), a))
         | (Inl e, a) \<Rightarrow> (json_error 401 e, a)))"

definition logout :: "libs \<Rightarrow> headers \<Rightarrow> app_state \<Rightarrow> http_response \<times> app_state" where
  "logout L h a =
     (case extract_token h of
        None \<Rightarrow> (json_error 401 ''Missing token'', a)
      | Some token \<Rightarrow>
        (case on_db (validate_token L token (jwt_secret a)) a of
           (Inr claims, a) \<Rightarrow>
             (let a = (case cl_session_id claims of None \<Rightarrow> a | Some sid \<Rightarrow> revoke_session sid a);
                  a = do_db (log_audit L (cl_user_id claims) (cl_sub claims) ''logout'' None ''{}'' None) a
              in (\<lparr>status = 200, body = JObj [(''success'', JBool True)]\<rparr>, a))
         | (Inl e, a) \<Rightarrow> (\<lparr>status = 200, body = JObj [(''success'', JBool True)]\<rparr>, a)))"

definition electronic_signature ::
    "libs \<Rightarrow> esig_request \<Rightarrow> app_state \<Rightarrow> http_response \<times> app_state" where
  "electronic_signature L req a =
     (case on_db sql a of
        (Some e, a) \<Rightarrow> (json_error 500 ''Internal server error'', a)
      | (None, a) \<Rightarrow>
       (case find (\<lambda>u. us_username u = es_username req \<and> us_is_active u = 1) (users (app_db a)) of
          None \<Rightarrow> (json_error 401 ''Invalid credentials'', a)
        | Some user \<Rightarrow>
          if \<not> verify_password L (es_password req) (us_password_hash user)
          then (json_error 401 ''Invalid credentials'', a)
          else
           (let details = json_text L (JObj [(''reason'', JStr (es_reason req))]);
                a = do_db (log_audit L (us_id user) (us_username user) ''electronic_signature'' None
                      details None) a
            in (json_data 200 (JObj [(''verified'', JBool True), (''user_id'', JStr (us_id user)),
                  (''username'', JStr (us_username user)), (''role'', JStr (us_role user)),
                  (''reason'', JStr (es_reason req))]), a))))"

definition user_json :: "user_row \<Rightarrow> json" where
  "user_json u = JObj [(''id'', JStr (us_id u)), (''username'', JStr (us_username u)),
     (''role'', JStr (us_role u)), (''created_at'', JStr (us_created_at u)),
     (''is_active'', JBool (us_is_active u \<noteq> 0))]"

definition list_users :: "app_state \<Rightarrow> http_response \<times> app_state" where
  "list_users a =
     (let (e, a) = on_db sql a;
          found = (case e of Some _ \<Rightarrow> [] | None \<Rightarrow> sort_key us_created_at (users (app_db a)))
      in (json_data 200 (JArr (map user_json found)), a))"

text \<open>
  The body as it arrives (\<open>None\<close> when it cannot be read within the limit), and serde\_json's reader
  of the request type.
\<close>
definition create_user ::
    "libs \<Rightarrow> (string \<Rightarrow> create_user_request result) \<Rightarrow> claims option \<Rightarrow> string option \<Rightarrow>
     app_state \<Rightarrow> http_response \<times> app_state" where
  "create_user L from_slice claims bytes a =
     (case bytes of
        None \<Rightarrow> (json_error 400 ''Invalid request body'', a)
      | Some bytes \<Rightarrow>
       (case from_slice bytes of
          Inl e \<Rightarrow> (json_error 400 (''Invalid JSON: '' @ e), a)
        | Inr req \<Rightarrow>
          if cu_role req \<notin> set [''viewer'', ''operator'', ''admin'']
          then (json_error 400 ''Role must be viewer, operator, or admin'', a)
          else (case validate_password_complexity L (cu_password req) of
             Inl msg \<Rightarrow> (json_error 400 msg, a)
           | Inr _ \<Rightarrow>
            (case on_db (hash_password L (cu_password req)) a of
               (Inl e, a) \<Rightarrow> (json_error 500 e, a)
             | (Inr hash, a) \<Rightarrow>
              (let (user_id, a) = on_db new_uuid a;
                   (t, a) = on_db utc_now a; now = to_rfc3339 L t;
                   (r, a) = on_db (insert_user user_id (cu_username req) hash (cu_role req) now) a in
               case r of
                 Inr _ \<Rightarrow>
                  (let a = (case claims of None \<Rightarrow> a
                      | Some c \<Rightarrow> do_db (log_audit L (cl_user_id c) (cl_sub c) ''create_user'' None
                          (json_text L (JObj [(''created_user'', JStr (cu_username req)),
                             (''role'', JStr (cu_role req))])) None) a)
                   in (json_data 201 (JObj [(''id'', JStr user_id),
                         (''username'', JStr (cu_username req)), (''role'', JStr (cu_role req))]), a))
               | Inl e \<Rightarrow>
                  (json_error 409 (if contains ''UNIQUE'' e
                     then ''Username '' @ quoted (cu_username req) @ '' already exists''
                     else ''Failed to create user: '' @ e), a))))))"

definition audit_json :: "audit_entry \<Rightarrow> json" where
  "audit_json e = JObj [(''id'', JInt (ae_id e)), (''user_id'', JStr (ae_user_id e)),
     (''username'', JStr (ae_username e)), (''action'', JStr (ae_action e)),
     (''device_id'', jopt (ae_device_id e)), (''details'', JStr (ae_details e)),
     (''timestamp'', JStr (ae_timestamp e)), (''ip_address'', jopt (ae_ip_address e))]"

definition audit_rows :: "audit_query_params \<Rightarrow> world \<Rightarrow> audit_entry list \<times> world" where
  "audit_rows p w =
     (let limit = (case uq_limit p of None \<Rightarrow> 100 | Some n \<Rightarrow> n); (e, w) = sql w in
      (case e of Some _ \<Rightarrow> []
       | None \<Rightarrow> sql_limit limit (order_desc ae_id (filter (audit_where p) (rows (audit_trail w)))), w))"

definition get_audit_trail ::
    "audit_query_params \<Rightarrow> app_state \<Rightarrow> http_response \<times> app_state" where
  "get_audit_trail p a =
     (let (entries, a) = on_db (audit_rows p) a in (json_data 200 (JArr (map audit_json entries)), a))"

section \<open>What the operations leave alone\<close>

text \<open>A state that differs only in how often the wall clock has been read.\<close>
definition clock_only :: "app_state \<Rightarrow> app_state \<Rightarrow> bool" where
  "clock_only a a' \<longleftrightarrow>
     (\<exists>n. a' = a\<lparr>app_db := (app_db a)\<lparr>wall_reads := wall_reads (app_db a) + n\<rparr>\<rparr>)"

lemma clock_onlyD:
  assumes "clock_only a a'"
  shows "users (app_db a') = users (app_db a)" "audit_trail (app_db a') = audit_trail (app_db a)"
    "sessions a' = sessions a" "jwt_secret a' = jwt_secret a"
    "login_attempts a' = login_attempts a" "app_devices a' = app_devices a"
  using assms by (auto simp: clock_only_def)

lemma clock_only_refl: "clock_only a a"
  by (auto simp: clock_only_def intro: exI [of _ 0])

lemma clock_only_trans: "clock_only a b \<Longrightarrow> clock_only b c \<Longrightarrow> clock_only a c"
  by (auto simp: clock_only_def add.assoc)

lemma on_db_now: "on_db utc_now a =
    (wall (app_db a) (wall_reads (app_db a)),
     a\<lparr>app_db := (app_db a)\<lparr>wall_reads := wall_reads (app_db a) + 1\<rparr>\<rparr>)"
  by (simp add: on_db_def utc_now_def)

text \<open>The two checks of a request's token as conditions on the state.\<close>
abbreviation now_of :: "app_state \<Rightarrow> time" where
  "now_of a \<equiv> wall (app_db a) (wall_reads (app_db a))"

definition tick_clock :: "app_state \<Rightarrow> app_state" where
  "tick_clock a = a\<lparr>app_db := (app_db a)\<lparr>wall_reads := wall_reads (app_db a) + 1\<rparr>\<rparr>"

lemma tick_clock_simps [simp]:
  "sessions (tick_clock a) = sessions a" "jwt_secret (tick_clock a) = jwt_secret a"
  "users (app_db (tick_clock a)) = users (app_db a)"
  "audit_trail (app_db (tick_clock a)) = audit_trail (app_db a)"
  "wall (app_db (tick_clock a)) = wall (app_db a)"
  "wall_reads (app_db (tick_clock a)) = wall_reads (app_db a) + 1"
  "login_attempts (tick_clock a) = login_attempts a"
  by (simp_all add: tick_clock_def)

lemma clock_only_tick: "clock_only a (tick_clock a)"
  by (auto simp: tick_clock_def clock_only_def intro!: exI [of _ 1])

lemma validate_token_eq:
  "on_db (validate_token L token secret) a =
     (case jwt_decode L token secret (now_of a) of
        Inr c \<Rightarrow> (Inr c, tick_clock a)
      | Inl e \<Rightarrow> (Inl (''Invalid token: '' @ e), tick_clock a))"
  by (simp add: on_db_def validate_token_def utc_now_def tick_clock_def split: sum.split)

definition session_ok :: "claims \<Rightarrow> app_state \<Rightarrow> bool" where
  "session_ok c a \<longleftrightarrow> (case cl_session_id c of None \<Rightarrow> True
     | Some s \<Rightarrow> (case sessions a s of None \<Rightarrow> False
        | Some (uid, expires) \<Rightarrow> timestamp (now_of a) < expires))"

definition after_session :: "claims \<Rightarrow> app_state \<Rightarrow> app_state" where
  "after_session c a = (case cl_session_id c of None \<Rightarrow> a
     | Some s \<Rightarrow> if sessions a s = None then a else tick_clock a)"

lemma clock_only_session: "clock_only a (after_session c a)"
  by (auto simp: after_session_def clock_only_refl clock_only_tick split: option.split)

lemma session_live_eq: "session_live c a = (session_ok c a, after_session c a)"
  by (auto simp: session_live_def session_ok_def after_session_def is_session_valid_def on_db_now
      tick_clock_def split: option.split)

section \<open>The contract of the middlewares\<close>

definition admit ::
    "libs \<Rightarrow> Role \<Rightarrow> string \<Rightarrow> headers \<Rightarrow> app_state \<Rightarrow> (http_response + claims) \<times> app_state" where
  "admit L required denied h a =
     (case extract_token h of
        None \<Rightarrow> (Inl (json_error 401 ''Missing Authorization header''), a)
      | Some token \<Rightarrow>
        (case jwt_decode L token (jwt_secret a) (now_of a) of
           Inl e \<Rightarrow> (Inl (json_error 401 (''Invalid token: '' @ e)), tick_clock a)
         | Inr c \<Rightarrow>
           (let b = after_session c (tick_clock a) in
            if \<not> session_ok c (tick_clock a)
            then (Inl (json_error 401 ''Session expired or revoked''), b)
            else if required \<le> role_from_str (cl_role c) then (Inr c, b)
            else (Inl (json_error 403 denied), b))))"

text \<open>What a request must bring to be let through.\<close>
definition authorised :: "libs \<Rightarrow> Role \<Rightarrow> headers \<Rightarrow> app_state \<Rightarrow> claims \<Rightarrow> bool" where
  "authorised L required h a c \<longleftrightarrow>
     (\<exists>token. extract_token h = Some token \<and>
        jwt_decode L token (jwt_secret a) (now_of a) = Inr c) \<and>
     session_ok c (tick_clock a) \<and> required \<le> role_from_str (cl_role c)"

lemma admit_clock: "clock_only a (snd (admit L required denied h a))"
  by (auto simp: admit_def Let_def split: option.split sum.split
      intro: clock_only_refl clock_only_tick clock_only_trans [OF clock_only_tick clock_only_session])

lemma admit_iff: "fst (admit L required denied h a) = Inr c \<longleftrightarrow> authorised L required h a c"
  by (auto simp: admit_def authorised_def Let_def split: option.split sum.split)

lemma admit_refused:
  "fst (admit L required denied h a) = Inl r \<Longrightarrow> status r \<in> {401, 403}"
  by (auto simp: admit_def json_error_def Let_def split: option.splits sum.splits if_splits)

locale guard =
  fixes mw :: "libs \<Rightarrow> headers \<Rightarrow> route \<Rightarrow> app_state \<Rightarrow> http_response \<times> app_state"
    and required :: Role and denied :: string
  assumes mw_admit: "mw L h nxt a = (case admit L required denied h a of
     (Inl r, a) \<Rightarrow> (r, a) | (Inr c, a) \<Rightarrow> nxt c a)"
begin

lemma passes:
  assumes "authorised L required h a c"
  shows "mw L h nxt a = nxt c (snd (admit L required denied h a))"
  using assms [folded admit_iff [of L required denied]]
  by (cases "admit L required denied h a") (simp add: mw_admit)

lemma refuses:
  assumes "\<And>c. \<not> authorised L required h a c"
  shows "status (fst (mw L h nxt a)) \<in> {401, 403} \<and> clock_only a (snd (mw L h nxt a))"
proof -
  have "\<forall>c. fst (admit L required denied h a) \<noteq> Inr c"
    using assms [folded admit_iff [of L required denied]] by blast
  then obtain r where r: "fst (admit L required denied h a) = Inl r"
    by (cases "fst (admit L required denied h a)") auto
  then have "mw L h nxt a = (r, snd (admit L required denied h a))"
    by (cases "admit L required denied h a") (simp add: mw_admit)
  with admit_refused [OF r] admit_clock show ?thesis by simp
qed

lemma refused_alike:
  assumes "\<And>c. \<not> authorised L required h a c"
  shows "mw L h nxt a = mw L h nxt' a"
proof -
  have "\<forall>c. fst (admit L required denied h a) \<noteq> Inr c"
    using assms [folded admit_iff [of L required denied]] by blast
  then show ?thesis
    by (cases "admit L required denied h a") (auto simp: mw_admit split: sum.split)
qed

lemma revoked:
  assumes "extract_token h = Some token" and "jwt_decode L token (jwt_secret a) (now_of a) = Inr c"
    and "cl_session_id c = Some s" and "sessions a s = None"
  shows "fst (mw L h nxt a) = json_error 401 ''Session expired or revoked''"
  using assms by (simp add: mw_admit admit_def session_ok_def Let_def)

end

lemma admit_Viewer: "Viewer \<le> r"
  by (cases r) (simp_all add: less_eq_Role_def)

interpretation any_user: guard auth_middleware Viewer "''''"
  by unfold_locales (simp add: auth_middleware_def admit_def validate_token_eq session_live_eq
      admit_Viewer Let_def split: option.split sum.split)

interpretation operators: guard require_operator Operator "''Operator or Admin role required''"
  by unfold_locales (simp add: require_operator_def admit_def validate_token_eq session_live_eq
      has_permission_iff Let_def split: option.split sum.split)

interpretation admins: guard require_admin Admin "''Admin role required''"
  by unfold_locales (simp add: require_admin_def admit_def validate_token_eq session_live_eq
      has_permission_iff Let_def split: option.split sum.split)

text \<open>The middleware that enforces a role.\<close>
fun guard_of :: "Role \<Rightarrow> libs \<Rightarrow> headers \<Rightarrow> route \<Rightarrow> app_state \<Rightarrow> http_response \<times> app_state" where
  "guard_of Viewer = auth_middleware"
| "guard_of Operator = require_operator"
| "guard_of Admin = require_admin"

lemmas guard_facts = any_user.passes operators.passes admins.passes any_user.refuses
  operators.refuses admins.refuses

lemma guard_of_passes:
  "authorised L required h a c \<Longrightarrow> \<exists>b. clock_only a b \<and> guard_of required L h nxt a = nxt c b"
  by (cases required) (auto simp: guard_facts(1-3) intro: admit_clock)

lemma guard_of_refuses:
  "(\<And>c. \<not> authorised L required h a c) \<Longrightarrow>
     status (fst (guard_of required L h nxt a)) \<in> {401, 403} \<and>
     clock_only a (snd (guard_of required L h nxt a))"
  using guard_facts(4-6) by (cases required) auto

lemma guard_of_refused_alike:
  "(\<And>c. \<not> authorised L required h a c) \<Longrightarrow> guard_of required L h nxt a = guard_of required L h nxt' a"
  using any_user.refused_alike operators.refused_alike admins.refused_alike
  by (cases required) simp_all

text \<open>
  C6: the middlewares let exactly the authorised requests through. For each of the three levels (any
  user, operator, administrator): the route runs, with the claims of the token, when the bearer
  token is valid under the server's secret, its session is registered and not expired, and the role
  in it is at least the required one; in every other case the answer is 401 or 403 and nothing but
  the clock has moved.
\<close>
theorem guards_sound:
  "if \<exists>c. authorised L required h a c
   then \<exists>c b. authorised L required h a c \<and> clock_only a b \<and> guard_of required L h nxt a = nxt c b
   else status (fst (guard_of required L h nxt a)) \<in> {401, 403} \<and>
     clock_only a (snd (guard_of required L h nxt a))"
  using guard_of_passes [of L required h a _ nxt] guard_of_refuses [of L required h a nxt] by auto

text \<open>An environment that offers the token to the sample server.\<close>
definition bearer :: "string \<Rightarrow> headers" where
  "bearer token = [''authorization'' \<mapsto> ''Bearer '' @ token]"

section \<open>Logging out\<close>

text \<open>
  C15: logging out revokes the session for good. After a logout with a token of session \<open>s\<close>, every
  request that brings any token of that session is refused by every middleware with the answer
  for a revoked session, although the token itself is still valid.
\<close>
theorem logout_revokes:
  assumes "extract_token h = Some token"
    and "jwt_decode L token (jwt_secret a) (now_of a) = Inr c" and "cl_session_id c = Some s"
    and "a' = snd (logout L h a)"
    and "extract_token h' = Some token'"
    and "jwt_decode L token' (jwt_secret a) (now_of a') = Inr c'" and "cl_session_id c' = Some s"
  shows "fst (guard_of required L h' nxt a') = json_error 401 ''Session expired or revoked''"
proof -
  have "sessions a' s = None" "jwt_secret a' = jwt_secret a"
    using assms(1-4) by (simp_all add: logout_def validate_token_eq revoke_session_def Let_def)
  then show ?thesis
    using assms(5-7) any_user.revoked operators.revoked admins.revoked
    by (cases required) auto
qed

lemma log_audit_table:
  "audit_trail (log_audit L u n x d t i w) =
     (if sql_fault w (sql_calls w) = None
      then snd (tbl_insert (audit_columns (u, n, x, d, t, to_rfc3339 L (wall w (wall_reads w)), i))
        (audit_trail w)) else audit_trail w)"
  by (simp add: log_audit_def env_defs Let_def split: option.split)

lemma log_audit_frame [simp]:
  "users (log_audit L u n x d t i w) = users w" "alarms (log_audit L u n x d t i w) = alarms w"
  "batch_records (log_audit L u n x d t i w) = batch_records w"
  "plc_readings (log_audit L u n x d t i w) = plc_readings w"
  "devices_tbl (log_audit L u n x d t i w) = devices_tbl w"
  "wall (log_audit L u n x d t i w) = wall w" "mono (log_audit L u n x d t i w) = mono w"
  "mono_reads (log_audit L u n x d t i w) = mono_reads w"
  "healthy (log_audit L u n x d t i w) = healthy w"
  "wall_reads (log_audit L u n x d t i w) = wall_reads w + 1"
  by (simp_all add: log_audit_def env_defs Let_def healthy_def split: option.split)

section \<open>Failed logins\<close>

text \<open>The credentials do not belong to an account: unknown name, or wrong password.\<close>
definition wrong_login :: "libs \<Rightarrow> login_request \<Rightarrow> world \<Rightarrow> bool" where
  "wrong_login L req w \<longleftrightarrow> (case user_named (lr_username req) w of None \<Rightarrow> True
     | Some u \<Rightarrow> us_is_active u \<noteq> 0 \<and> \<not> verify_password L (lr_password req) (us_password_hash u))"

text \<open>The counter's state after \<open>n\<close> failures, the first of them at clock reading \<open>k + 1\<close>.\<close>
definition failed_times :: "nat \<Rightarrow> nat \<Rightarrow> string \<Rightarrow> app_state \<Rightarrow> bool" where
  "failed_times n k u a \<longleftrightarrow> healthy (app_db a) \<and>
     (if n = 0 then login_attempts a u = None \<and> mono_reads (app_db a) = k
      else login_attempts a u = Some (of_nat n, mono (app_db a) (k + 1)) \<and>
        mono_reads (app_db a) = k + n + 1)"

lemma check_throttle_open:
  assumes "case login_attempts a u of None \<Rightarrow> True | Some (n, t) \<Rightarrow> n < MAX_LOGIN_ATTEMPTS"
  shows "check_login_throttle u a = (Inr (), a)"
  using assms by (auto simp: check_login_throttle_def not_le split: option.splits)

lemma login_wrong:
  assumes "healthy (app_db a)" and "wrong_login L req (app_db a)"
    and "case login_attempts a (lr_username req) of None \<Rightarrow> True
      | Some (n, t) \<Rightarrow> n < MAX_LOGIN_ATTEMPTS"
  shows "login L req a = (json_error 401 ''Invalid credentials'',
    record_failed_login (lr_username req) (snd (on_db sql a)))"
proof -
  have q: "on_db sql a = (None, snd (on_db sql a))"
    using assms(1) by (simp add: on_db_def sql_def)
  have same: "user_named n (snd (sql w)) = user_named n w" for n w
    by (simp add: user_named_def sql_def)
  show ?thesis
    unfolding login_def check_throttle_open [OF assms(3)] prod.case sum.case
    by (subst q) (use assms(2) in \<open>auto simp: same wrong_login_def split: option.split\<close>)
qed

lemma record_failed_times:
  assumes "failed_times n k u a" and "n < 5"
  shows "failed_times (Suc n) k u (record_failed_login u (snd (on_db sql a)))"
proof (cases n)
  case 0
  then show ?thesis
    using assms by (simp add: failed_times_def record_failed_login_def on_db_def env_defs Let_def)
next
  case (Suc m)
  have "(of_nat (Suc n) :: u32) \<noteq> 1"
    using assms(2) Suc by (auto simp: word_of_nat_eq_iff take_bit_nat_eq_self
        simp del: of_nat_Suc simp flip: of_nat_1)
  then show ?thesis
    using assms Suc by (simp add: failed_times_def record_failed_login_def on_db_def env_defs Let_def
        ac_simps)
qed

lemma record_failed_users [simp]:
  "users (app_db (record_failed_login u a)) = users (app_db a)"
  "mono (app_db (record_failed_login u a)) = mono (app_db a)"
  "sessions (record_failed_login u a) = sessions a"
  "audit_trail (app_db (record_failed_login u a)) = audit_trail (app_db a)"
  by (simp_all add: record_failed_login_def on_db_def env_defs Let_def split: prod.split option.split)

lemma sql_users [simp]:
  "users (snd (sql w)) = users w" "mono (snd (sql w)) = mono w"
  "audit_trail (snd (sql w)) = audit_trail w"
  by (simp_all add: sql_def)

lemma elapsed_less: "x < y + 900 * 1000000000 \<Longrightarrow> elapsed_secs x y < 900"
  using zdiv_mono1 [of "x - y" 899999999999 1000000000] by (simp add: elapsed_secs_def)

definition attempt_logins :: "libs \<Rightarrow> string \<Rightarrow> string list \<Rightarrow> app_state \<Rightarrow> app_state" where
  "attempt_logins L u ps a = fold (\<lambda>p a. snd (login L \<lparr>lr_username = u, lr_password = p\<rparr> a)) ps a"

lemma attempt_logins_fail:
  assumes "failed_times n k u a" and "n + length ps \<le> 5"
    and "\<forall>p \<in> set ps. wrong_login L \<lparr>lr_username = u, lr_password = p\<rparr> (app_db a)"
  shows "failed_times (n + length ps) k u (attempt_logins L u ps a) \<and>
    users (app_db (attempt_logins L u ps a)) = users (app_db a) \<and>
    mono (app_db (attempt_logins L u ps a)) = mono (app_db a)"
  using assms
proof (induction ps arbitrary: n a)
  case (Cons p ps)
  let ?req = "\<lparr>lr_username = u, lr_password = p\<rparr>"
  let ?b = "record_failed_login u (snd (on_db sql a))"
  have n: "n < 5" using Cons.prems(2) by simp
  have "(of_nat n :: u32) < 5"
    using n by (simp add: word_less_nat_alt unat_of_nat take_bit_nat_eq_self)
  then have "case login_attempts a u of None \<Rightarrow> True | Some (n, t) \<Rightarrow> n < MAX_LOGIN_ATTEMPTS"
    using Cons.prems(1) by (auto simp: failed_times_def MAX_LOGIN_ATTEMPTS_def split: if_splits)
  then have "snd (login L ?req a) = ?b"
    using Cons.prems(1,3) by (subst login_wrong) (auto simp: failed_times_def split: if_splits)
  moreover have "wrong_login L \<lparr>lr_username = u, lr_password = q\<rparr> (app_db ?b) =
      wrong_login L \<lparr>lr_username = u, lr_password = q\<rparr> (app_db a)" for q
    by (simp add: wrong_login_def user_named_def)
  ultimately show ?case
    using Cons.IH [OF record_failed_times [OF Cons.prems(1) n]] Cons.prems(2,3)
    by (simp add: attempt_logins_def)
qed (simp add: attempt_logins_def)


section \<open>Sample accounts and tokens\<close>

definition sample_claims :: "string \<Rightarrow> claims" where
  "sample_claims role = \<lparr>cl_sub = ''eve'', cl_role = role, cl_user_id = ''u1'', cl_exp = 28800,
     cl_iat = 0, cl_session_id = Some ''s1''\<rparr>"

definition sample_token :: "string \<Rightarrow> string" where
  "sample_token role = (case sample_encode (sample_claims role) default_jwt_secret of
     Inr t \<Rightarrow> t | Inl e \<Rightarrow> e)"

definition visible :: "char \<Rightarrow> bool" where
  "visible c \<longleftrightarrow> 32 \<le> (of_char c :: nat) \<and> of_char c < (127 :: nat)"

lemma visible_text: "list_all visible s \<Longrightarrow> to_str s = Some s"
  by (auto simp: to_str_def visible_def list_all_iff)

lemma visible_put_field: "list_all visible s \<Longrightarrow> list_all visible (put_field s)"
  by (auto simp: put_field_def list_all_iff visible_def)

lemma visible_show_nat: "list_all visible (show_nat n)"
proof (induction n rule: show_nat.induct)
  case (1 n)
  have "visible (digit (n mod 10))"
    by (simp add: visible_def digit_def)
  with 1 show ?case by (subst show_nat.simps) auto
qed

lemma sample_bearer:
  "extract_token (bearer (sample_token ''operator'')) = Some (sample_token ''operator'')"
proof -
  have "list_all visible (sample_token ''operator'')"
    unfolding sample_token_def sample_encode_def sum.case
    by (simp add: visible_put_field visible_show_nat sample_claims_def default_jwt_secret_def
        visible_def)
  then have "to_str (''Bearer '' @ sample_token ''operator'') =
      Some (''Bearer '' @ sample_token ''operator'')"
    by (intro visible_text) (simp add: visible_def)
  then show ?thesis by (simp add: extract_token_def bearer_def strip_prefix_Some)
qed

lemma sample_secret: "jwt_secret sample_app = default_jwt_secret"
  by (simp add: sample_app_def app_new_def sample_config_def config_of_raw_def sample_raw_def)

lemma sample_decode_token:
  "t < 1000 * 1000000000 \<Longrightarrow> jwt_decode sample_libs (sample_token role) default_jwt_secret t =
     Inr (sample_claims role)"
proof -
  assume "t < 1000 * 1000000000"
  then have "timestamp t \<le> cl_exp (sample_claims role)"
    using zdiv_mono1 [of t 999999999999 1000000000] by (simp add: timestamp_def sample_claims_def)
  moreover have "jwt_encode sample_libs (sample_claims role) default_jwt_secret =
      Inr (sample_token role)"
    by (simp add: sample_token_def sample_libs_def sample_encode_def)
  ultimately show ?thesis
    using sample_jwt by (simp add: jwt_verifies_def sample_claims_def)
qed

definition sample_session_app :: app_state where
  "sample_session_app = sample_app\<lparr>sessions := [''s1'' \<mapsto> (''u1'', 28800)]\<rparr>"

lemma sample_session_app_simps [simp]:
  "jwt_secret sample_session_app = default_jwt_secret"
  "sessions sample_session_app = [''s1'' \<mapsto> (''u1'', 28800)]"
  "app_db sample_session_app = sample_world" "app_devices sample_session_app = []"
  by (simp_all add: sample_session_app_def sample_secret) (simp_all add: sample_app_def app_new_def)

theorem logout_revokes_witness:
  "fst (guard_of Viewer sample_libs (bearer (sample_token ''operator'')) (\<lambda>c a. (json_data 200 JNull, a))
     (snd (logout sample_libs (bearer (sample_token ''operator'')) sample_session_app))) =
   json_error 401 ''Session expired or revoked''"
proof -
  let ?h = "bearer (sample_token ''operator'')"
  let ?c = "sample_claims ''operator''"
  have c: "jwt_decode sample_libs (sample_token ''operator'') default_jwt_secret t = Inr ?c"
    if "t < 1000 * 1000000000" for t
    using that by (rule sample_decode_token)
  have c1: "jwt_decode sample_libs (sample_token ''operator'') (jwt_secret sample_session_app)
      (now_of sample_session_app) = Inr ?c"
    by (simp add: c)
  have now: "now_of (snd (logout sample_libs ?h sample_session_app)) = 2000000000"
    by (simp add: logout_def sample_bearer validate_token_eq c revoke_session_def Let_def
        split: option.split)
  have c2: "jwt_decode sample_libs (sample_token ''operator'') (jwt_secret sample_session_app)
      (now_of (snd (logout sample_libs ?h sample_session_app))) = Inr ?c"
    unfolding now by (simp add: c)
  have sid: "cl_session_id ?c = Some ''s1''" by (simp add: sample_claims_def)
  show ?thesis by (rule logout_revokes [OF sample_bearer c1 sid refl sample_bearer c2 sid])
qed

section \<open>Logging in\<close>

text \<open>A time after the epoch whose seconds fit a 64-bit count.\<close>
definition sane_time :: "time \<Rightarrow> bool" where
  "sane_time t \<longleftrightarrow> 0 \<le> t \<and> timestamp t < 2 ^ 62"

lemma timestamp_hours: "timestamp (t + hours n) = timestamp t + n * 3600"
  by (simp add: timestamp_def hours_def)

lemma create_token_result:
  assumes "create_token L uid name role secret w = (Inr (token, expires, sid), w')"
    and "sane_time (wall w (wall_reads w))"
  shows "sid = uuid w (uuid_reads w)"
    and "expires = wall w (wall_reads w) + hours 8"
    and "w' = w\<lparr>uuid_reads := uuid_reads w + 1, wall_reads := wall_reads w + 2\<rparr>"
    and "\<exists>c. jwt_encode L c secret = Inr token \<and> cl_sub c = name \<and> cl_role c = role \<and>
      cl_user_id c = uid \<and> cl_session_id c = Some sid \<and>
      cl_exp c = timestamp (wall w (wall_reads w)) + 28800 \<and> 0 \<le> cl_iat c"
proof -
  let ?t = "wall w (wall_reads w)"
  have "0 \<le> timestamp ?t" "timestamp ?t < 2 ^ 62"
    using assms(2) by (auto simp: sane_time_def timestamp_def pos_imp_zdiv_nonneg_iff)
  then have exp: "as_usize (timestamp (?t + hours 8)) = timestamp ?t + 28800"
    by (simp add: as_usize_def timestamp_hours)
  show "sid = uuid w (uuid_reads w)" "expires = ?t + hours 8"
    "w' = w\<lparr>uuid_reads := uuid_reads w + 1, wall_reads := wall_reads w + 2\<rparr>"
    using assms(1) by (auto simp: create_token_def env_defs Let_def TOKEN_EXPIRY_HOURS_def
        split: sum.splits)
  show "\<exists>c. jwt_encode L c secret = Inr token \<and> cl_sub c = name \<and> cl_role c = role \<and>
      cl_user_id c = uid \<and> cl_session_id c = Some sid \<and> cl_exp c = timestamp ?t + 28800 \<and>
      0 \<le> cl_iat c"
    using assms(1) exp by (auto simp: create_token_def env_defs Let_def TOKEN_EXPIRY_HOURS_def
        as_usize_def split: sum.splits intro!: exI)
qed
text \<open>The parts of the state that the throttle does not touch.\<close>
lemma check_throttle_frame [simp]:
  "users (app_db (snd (check_login_throttle u a))) = users (app_db a)"
  "wall (app_db (snd (check_login_throttle u a))) = wall (app_db a)"
  "wall_reads (app_db (snd (check_login_throttle u a))) = wall_reads (app_db a)"
  "uuid (app_db (snd (check_login_throttle u a))) = uuid (app_db a)"
  "uuid_reads (app_db (snd (check_login_throttle u a))) = uuid_reads (app_db a)"
  "jwt_secret (snd (check_login_throttle u a)) = jwt_secret a"
  "sessions (snd (check_login_throttle u a)) = sessions a"
  "audit_trail (app_db (snd (check_login_throttle u a))) = audit_trail (app_db a)"
  "sql_fault (app_db (snd (check_login_throttle u a))) = sql_fault (app_db a)"
  by (auto simp: check_login_throttle_def on_db_def instant_now_def Let_def split: option.split)

text \<open>The state in which \<open>login\<close> issues the token.\<close>
definition login_ready :: "login_request \<Rightarrow> app_state \<Rightarrow> app_state" where
  "login_ready req a = clear_failed_login (lr_username req)
     (snd (on_db sql (snd (check_login_throttle (lr_username req) a))))"

lemma login_ready_simps [simp]:
  "users (app_db (login_ready req a)) = users (app_db a)"
  "wall (app_db (login_ready req a)) = wall (app_db a)"
  "wall_reads (app_db (login_ready req a)) = wall_reads (app_db a)"
  "uuid (app_db (login_ready req a)) = uuid (app_db a)"
  "uuid_reads (app_db (login_ready req a)) = uuid_reads (app_db a)"
  "jwt_secret (login_ready req a) = jwt_secret a"
  "sessions (login_ready req a) = sessions a"
  "audit_trail (app_db (login_ready req a)) = audit_trail (app_db a)"
  "login_attempts (login_ready req a) (lr_username req) = None"
  by (simp_all add: login_ready_def clear_failed_login_def sql_def)

lemma login_200:
  assumes "status (fst (login L req a)) = 200"
  obtains user token expires sid w where
    "user_named (lr_username req) (app_db a) = Some user" "us_is_active user \<noteq> 0"
    "verify_password L (lr_password req) (us_password_hash user)"
    "create_token L (us_id user) (us_username user) (us_role user) (jwt_secret a)
       (app_db (login_ready req a)) = (Inr (token, expires, sid), w)"
    "snd (login L req a) = do_db (log_audit L (us_id user) (us_username user) ''login'' None ''{}'' None)
       (register_session sid (us_id user) (timestamp expires) ((login_ready req a)\<lparr>app_db := w\<rparr>))"
    "body (fst (login L req a)) = JObj [(''success'', JBool True), (''data'',
       JObj [(''token'', JStr token), (''user'', JObj [(''id'', JStr (us_id user)),
         (''username'', JStr (us_username user)), (''role'', JStr (us_role user))]),
         (''expires_at'', JStr (to_rfc3339 L expires))])]"
proof -
  obtain r0 a0 where t: "check_login_throttle (lr_username req) a = (r0, a0)" by fastforce
  obtain e a1 where q: "on_db sql a0 = (e, a1)" by fastforce
  have a1: "login_ready req a = clear_failed_login (lr_username req) a1"
    by (simp add: login_ready_def t q)
  have "users (app_db a1) = users (app_db a)"
    using check_throttle_frame(1) [of "lr_username req" a] on_db_simps(2) [of sql a0] by (simp add: t q)
  then have name: "user_named n (app_db a1) = user_named n (app_db a)" for n
    by (simp add: user_named_def)
  have sec: "jwt_secret a1 = jwt_secret a"
    using check_throttle_frame(6) [of "lr_username req" a] on_db_simps(4) [of sql a0] by (simp add: t q)
  have r0: "r0 = Inr ()" and e: "e = None"
    using assms by (auto simp: login_def t q json_error_def split: sum.splits option.splits)
  have "\<exists>user. user_named (lr_username req) (app_db a) = Some user \<and> us_is_active user \<noteq> 0 \<and>
      verify_password L (lr_password req) (us_password_hash user)"
    using assms by (auto simp: login_def t q r0 e name json_error_def split: option.splits if_splits)
  then obtain user where user: "user_named (lr_username req) (app_db a) = Some user"
    "us_is_active user \<noteq> 0" "verify_password L (lr_password req) (us_password_hash user)" by blast
  obtain tr w where ct: "create_token L (us_id user) (us_username user) (us_role user) (jwt_secret a)
      (app_db (login_ready req a)) = (tr, w)" by fastforce
  have run: "on_db (create_token L (us_id user) (us_username user) (us_role user) (jwt_secret a))
      (clear_failed_login (lr_username req) a1) = (tr, (login_ready req a)\<lparr>app_db := w\<rparr>)"
    using ct by (simp add: on_db_def a1 split: prod.split)
  have "\<exists>x. tr = Inr x"
    using assms by (cases tr) (auto simp: login_def t q r0 e name sec user run json_error_def)
  then obtain token expires sid where tr: "tr = Inr (token, expires, sid)" by (metis surj_pair)
  show ?thesis
    by (rule that [OF user ct [unfolded tr]])
      (simp_all add: login_def t q r0 e name sec user run tr json_data_def Let_def)
qed

text \<open>
  C14: a successful login is worth eight hours. The account exists, is active and its password
  verifies; its failure count is cleared; and the token in the answer then passes every middleware
  up to the account's role, with the account's name and role in the claims, at any later state that
  still has the session, while less than eight hours have passed on the clock.
\<close>
theorem login_token_works:
  assumes "jwt_verifies L" and "sane_time (now_of a)" and "status (fst (login L req a)) = 200"
    and "a' = snd (login L req a)"
  shows "\<exists>token user sid rest.
    body (fst (login L req a)) = JObj [(''success'', JBool True),
      (''data'', JObj ((''token'', JStr token) # rest))] \<and>
    user_named (lr_username req) (app_db a) = Some user \<and> us_is_active user \<noteq> 0 \<and>
    verify_password L (lr_password req) (us_password_hash user) \<and>
    login_attempts a' (lr_username req) = None \<and>
    (\<forall>required h nxt b. required \<le> role_from_str (us_role user) \<and>
       extract_token h = Some token \<and> jwt_secret b = jwt_secret a \<and> sessions b sid = sessions a' sid \<and>
       timestamp (now_of b) \<le> timestamp (now_of a) + 28800 \<and>
       timestamp (now_of (tick_clock b)) < timestamp (now_of a) + 28800 \<longrightarrow>
       (\<exists>c b'. cl_sub c = us_username user \<and> cl_role c = us_role user \<and> clock_only b b' \<and>
          guard_of required L h nxt b = nxt c b'))"
proof -
  obtain user token expires sid w where l:
    "user_named (lr_username req) (app_db a) = Some user" "us_is_active user \<noteq> 0"
    "verify_password L (lr_password req) (us_password_hash user)"
    "create_token L (us_id user) (us_username user) (us_role user) (jwt_secret a)
       (app_db (login_ready req a)) = (Inr (token, expires, sid), w)"
    "a' = do_db (log_audit L (us_id user) (us_username user) ''login'' None ''{}'' None)
       (register_session sid (us_id user) (timestamp expires) ((login_ready req a)\<lparr>app_db := w\<rparr>))"
    "body (fst (login L req a)) = JObj [(''success'', JBool True), (''data'',
       JObj [(''token'', JStr token), (''user'', JObj [(''id'', JStr (us_id user)),
         (''username'', JStr (us_username user)), (''role'', JStr (us_role user))]),
         (''expires_at'', JStr (to_rfc3339 L expires))])]"
    by (rule login_200 [OF assms(3)]) (simp add: assms(4))
  have "sane_time (now_of (login_ready req a))" using assms(2) by simp
  note ct = create_token_result [OF l(4) this, simplified]
  obtain c where c: "jwt_encode L c (jwt_secret a) = Inr token" "cl_sub c = us_username user"
    "cl_role c = us_role user" "cl_session_id c = Some sid"
    "cl_exp c = timestamp (now_of a) + 28800" "0 \<le> cl_iat c"
    using ct(4) by blast
  have pos: "0 \<le> cl_exp c"
    using assms(2) c(5) by (simp add: sane_time_def timestamp_def pos_imp_zdiv_nonneg_iff)
  have sess: "sessions a' sid = Some (us_id user, timestamp (now_of a) + 28800)"
    using ct(2) by (simp add: l(5) register_session_def timestamp_hours)
  have att: "login_attempts a' (lr_username req) = None"
    by (simp add: l(5) register_session_def)
  have "\<exists>c b'. cl_sub c = us_username user \<and> cl_role c = us_role user \<and> clock_only b b' \<and>
      guard_of required L h nxt b = nxt c b'"
    if "required \<le> role_from_str (us_role user)" "extract_token h = Some token"
      "jwt_secret b = jwt_secret a" "sessions b sid = sessions a' sid"
      "timestamp (now_of b) \<le> timestamp (now_of a) + 28800"
      "timestamp (now_of (tick_clock b)) < timestamp (now_of a) + 28800" for required h nxt b
  proof -
    have "jwt_decode L token (jwt_secret b) (now_of b) = Inr c"
      using assms(1) c(1,5,6) pos that(3,5) by (simp add: jwt_verifies_def)
    then have "authorised L required h b c"
      using that c(3,4) sess by (simp add: authorised_def session_ok_def)
    from guard_of_passes [OF this, of nxt] c(2,3) show ?thesis by blast
  qed
  with l(1-3,6) att show ?thesis by blast
qed

definition sample_user :: user_row where
  "sample_user = \<lparr>us_id = ''u1'', us_username = ''eve'', us_password_hash = ''$Secret99'',
     us_role = ''operator'', us_created_at = ''t'', us_is_active = 1\<rparr>"

definition sample_user_app :: app_state where
  "sample_user_app = sample_app\<lparr>app_db := sample_world\<lparr>users := [sample_user]\<rparr>\<rparr>"

definition sample_login :: login_request where
  "sample_login = \<lparr>lr_username = ''eve'', lr_password = ''Secret99''\<rparr>"

lemma sample_user_app_simps [simp]:
  "app_db sample_user_app = sample_world\<lparr>users := [sample_user]\<rparr>"
  "login_attempts sample_user_app = Map.empty" "sessions sample_user_app = Map.empty"
  "jwt_secret sample_user_app = default_jwt_secret"
  by (simp_all add: sample_user_app_def sample_secret) (simp_all add: sample_app_def app_new_def)

lemma sample_login_ok: "status (fst (login sample_libs sample_login sample_user_app)) = 200"
  by (simp add: login_def sample_login_def check_login_throttle_def on_db_def sql_def user_named_def
      sample_user_def verify_password_def clear_failed_login_def create_token_def env_defs
      json_data_def Let_def sample_libs_def sample_encode_def)

theorem login_token_works_witness:
  "\<exists>token user sid rest.
    body (fst (login sample_libs sample_login sample_user_app)) = JObj [(''success'', JBool True),
      (''data'', JObj ((''token'', JStr token) # rest))] \<and>
    user_named ''eve'' (app_db sample_user_app) = Some user"
proof -
  have "sane_time (now_of sample_user_app)" by (simp add: sane_time_def timestamp_def)
  from login_token_works [OF sample_jwt this sample_login_ok refl] show ?thesis
    by (auto simp: sample_login_def)
qed

section \<open>Signatures and new users\<close>

text \<open>
  An electronic signature is the account holder's. It is accepted exactly when an active account
  of that name exists and the password verifies; then one audit entry with that account's id and
  name, the action \<open>electronic_signature\<close> and the stated reason is appended, and otherwise the
  audit trail is untouched.
\<close>
theorem esig_checks_password:
  assumes "healthy (app_db a)" and "electronic_signature L req a = (r, a')"
  shows "case find (\<lambda>u. us_username u = es_username req \<and> us_is_active u = 1) (users (app_db a)) of
      None \<Rightarrow> status r = 401 \<and> audit_trail (app_db a') = audit_trail (app_db a)
    | Some u \<Rightarrow>
        if verify_password L (es_password req) (us_password_hash u)
        then status r = 200 \<and> (\<exists>e. rows (audit_trail (app_db a')) = rows (audit_trail (app_db a)) @ [e] \<and>
          ae_user_id e = us_id u \<and> ae_username e = us_username u \<and>
          ae_action e = ''electronic_signature'' \<and>
          ae_details e = json_text L (JObj [(''reason'', JStr (es_reason req))]))
        else status r = 401 \<and> audit_trail (app_db a') = audit_trail (app_db a)"
  using assms
  by (auto simp: electronic_signature_def on_db_def sql_def json_error_def json_data_def Let_def
      log_audit_table healthy_def audit_columns_def split: option.splits if_splits)

theorem esig_checks_password_witness:
  "status (fst (electronic_signature sample_libs \<lparr>es_username = ''eve'', es_password = ''guess'',
     es_reason = ''release''\<rparr> sample_user_app)) = 401"
proof -
  let ?req = "\<lparr>es_username = ''eve'', es_password = ''guess'', es_reason = ''release''\<rparr>"
  obtain r a' where r: "electronic_signature sample_libs ?req sample_user_app = (r, a')" by fastforce
  have "healthy (app_db sample_user_app)" by (simp add: healthy_def)
  from esig_checks_password [OF this r] show ?thesis
    unfolding r by (simp add: sample_user_def verify_password_def sample_libs_def)
qed

lemma insert_user_result:
  "fst (insert_user i n h r now w) = Inr () \<longleftrightarrow> sql_fault w (sql_calls w) = None \<and>
     (\<forall>u \<in> set (users w). us_username u \<noteq> n \<and> us_id u \<noteq> i)"
  "users (snd (insert_user i n h r now w)) =
     (if fst (insert_user i n h r now w) = Inr () then users w @ [\<lparr>us_id = i, us_username = n,
       us_password_hash = h, us_role = r, us_created_at = now, us_is_active = 1\<rparr>] else users w)"
  by (auto simp: insert_user_def sql_def split: option.split)


definition sample_new_user :: create_user_request where
  "sample_new_user = \<lparr>cu_username = ''eve'', cu_password = ''Secret99'', cu_role = ''operator''\<rparr>"


section \<open>The default accounts\<close>

text \<open>The Unicode upper case of ASCII: A to Z only.\<close>
definition ascii_upper :: "libs \<Rightarrow> bool" where
  "ascii_upper L \<longleftrightarrow> (\<forall>c < 128. is_uppercase L c \<longrightarrow> 65 \<le> c \<and> c \<le> 90)"

lemma no_upper_weak:
  assumes "ascii_upper L"
    and "\<forall>c \<in> set p. of_char c < (128 :: nat) \<and> \<not> (65 \<le> (of_char c :: nat) \<and> of_char c \<le> (90 :: nat))"
  shows "\<not> is_ok (validate_password_complexity L p)"
proof -
  have "chars p = map of_char p" using assms(2) by (intro chars_ascii) blast
  then have "\<not> (\<exists>c \<in> set (chars p). is_uppercase L c)"
    using assms by (auto simp: ascii_upper_def)
  then show ?thesis by (simp add: validate_password_complexity_def)
qed

lemma insert_user_env:
  "uuid (snd (insert_user i n h r now w)) = uuid w"
  "uuid_reads (snd (insert_user i n h r now w)) = uuid_reads w"
  "healthy (snd (insert_user i n h r now w)) = healthy w"
proof -
  have h: "healthy (w\<lparr>sql_calls := k, users := us\<rparr>) = healthy w" for k us by (simp add: healthy_def)
  show "uuid (snd (insert_user i n h r now w)) = uuid w"
    "uuid_reads (snd (insert_user i n h r now w)) = uuid_reads w"
    "healthy (snd (insert_user i n h r now w)) = healthy w"
    by (cases "sql_fault w (sql_calls w)", simp_all add: insert_user_def sql_def h)+
qed

text \<open>One account is added by a hashing and an insertion that succeed.\<close>
definition account_added :: "libs \<Rightarrow> string \<Rightarrow> string \<Rightarrow> string \<Rightarrow> string \<Rightarrow> world \<Rightarrow> world \<Rightarrow> bool"
  where
  "account_added L i n p r w w' \<longleftrightarrow> healthy w' \<and> uuid w' = uuid w \<and> uuid_reads w' = uuid_reads w \<and>
     (\<exists>u. users w' = users w @ [u] \<and> us_id u = i \<and> us_username u = n \<and> us_role u = r \<and>
        verify_password L p (us_password_hash u))"

lemma account_added_insert:
  assumes "argon2_correct L" and "argon2_hash L p s = Inr h" and "healthy w"
    and "\<forall>u \<in> set (users w). us_username u \<noteq> n \<and> us_id u \<noteq> i"
  shows "account_added L i n p r w (snd (insert_user i n h r now w))"
  using assms by (auto simp: account_added_def insert_user_env insert_user_result verify_password_def
      argon2_correct_def)

lemma hash_password_eq:
  "hash_password L p w = (case argon2_hash L p (salt w (salt_reads w)) of
       Inr h \<Rightarrow> (Inr h, w\<lparr>salt_reads := salt_reads w + 1\<rparr>)
     | Inl e \<Rightarrow> (Inl (''Hash failed: '' @ e), w\<lparr>salt_reads := salt_reads w + 1\<rparr>))"
  by (simp add: hash_password_def new_salt_def split: sum.split)

lemma seed_user_added:
  assumes "argon2_correct L" and "healthy w" and "seed_user L i n p r now w = Some w'"
    and "\<forall>u \<in> set (users w). us_username u \<noteq> n \<and> us_id u \<noteq> i"
  shows "account_added L i n p r w w'"
proof -
  obtain h where h: "argon2_hash L p (salt w (salt_reads w)) = Inr h"
    and w': "w' = snd (insert_user i n h r now (w\<lparr>salt_reads := salt_reads w + 1\<rparr>))"
    using assms(3) by (auto simp: seed_user_def hash_password_eq split: sum.splits)
  have "account_added L i n p r (w\<lparr>salt_reads := salt_reads w + 1\<rparr>) w'"
    unfolding w' by (rule account_added_insert [OF assms(1) h]) (use assms(2,4) in simp_all)
  then show ?thesis by (simp add: account_added_def)
qed

text \<open>On an empty database the seeding inserts the administrator and then seeds two more users.\<close>
definition admin_world :: "libs \<Rightarrow> string \<Rightarrow> world \<Rightarrow> world" where
  "admin_world L h w = snd (insert_user (uuid w (uuid_reads w)) ''admin'' h ''admin''
     (to_rfc3339 L (wall w (wall_reads w))) (w\<lparr>sql_calls := sql_calls w + 2 + 1,
       uuid_reads := uuid_reads w + 1, salt_reads := salt_reads w + 1, wall_reads := wall_reads w + 1\<rparr>))"

lemma init_auth_tables_empty:
  assumes "healthy w" and "users w = []" and "init_auth_tables L w = Some w'"
  obtains h v where "argon2_hash L ''admin123'' (salt w (salt_reads w)) = Inr h"
    "seed_user L (uuid (admin_world L h w) (uuid_reads (admin_world L h w))) ''operator''
       ''operator123'' ''operator'' (to_rfc3339 L (wall w (wall_reads w)))
       (snd (new_uuid (admin_world L h w))) = Some v"
    "seed_user L (uuid v (uuid_reads v)) ''viewer'' ''viewer123'' ''viewer''
       (to_rfc3339 L (wall w (wall_reads w))) (snd (new_uuid v)) = Some w'"
proof -
  have two: "create_tables 2 w = Some (w\<lparr>sql_calls := sql_calls w + 2\<rparr>)"
    using assms(1) by (simp add: numeral_2_eq_2 sql_def)
  obtain h where h: "argon2_hash L ''admin123'' (salt w (salt_reads w)) = Inr h"
    using assms by (cases "argon2_hash L ''admin123'' (salt w (salt_reads w))")
      (simp_all add: init_auth_tables_def two hash_password_eq sql_def new_uuid_def)
  have "(case seed_user L (uuid (admin_world L h w) (uuid_reads (admin_world L h w))) ''operator''
       ''operator123'' ''operator'' (to_rfc3339 L (wall w (wall_reads w)))
       (snd (new_uuid (admin_world L h w))) of None \<Rightarrow> None
     | Some v \<Rightarrow> seed_user L (uuid v (uuid_reads v)) ''viewer'' ''viewer123'' ''viewer''
       (to_rfc3339 L (wall w (wall_reads w))) (snd (new_uuid v))) = Some w'"
    using assms h by (simp add: init_auth_tables_def two hash_password_eq sql_def new_uuid_def
        utc_now_def Let_def admin_world_def cong: option.case_cong)
  with h that show ?thesis by (auto split: option.splits)
qed

text \<open>The seeded accounts, one by one.\<close>
lemma seeded_users:
  assumes "argon2_correct L" and "healthy w" and "users w = []" and "inj (uuid w)"
    and "init_auth_tables L w = Some w'"
  shows "\<exists>a b c. users w' = [a, b, c] \<and>
    us_username a = ''admin'' \<and> us_role a = ''admin'' \<and>
    verify_password L ''admin123'' (us_password_hash a) \<and>
    us_username b = ''operator'' \<and> us_role b = ''operator'' \<and>
    verify_password L ''operator123'' (us_password_hash b) \<and>
    us_username c = ''viewer'' \<and> us_role c = ''viewer'' \<and>
    verify_password L ''viewer123'' (us_password_hash c)"
proof -
  let ?k = "uuid_reads w"
  have uu: "uuid w a = uuid w b \<longleftrightarrow> a = b" for a b using assms(4) by (rule inj_eq)
  from init_auth_tables_empty [OF assms(2,3,5)] obtain h v where
    h: "argon2_hash L ''admin123'' (salt w (salt_reads w)) = Inr h"
    and v: "seed_user L (uuid (admin_world L h w) (uuid_reads (admin_world L h w))) ''operator''
       ''operator123'' ''operator'' (to_rfc3339 L (wall w (wall_reads w)))
       (snd (new_uuid (admin_world L h w))) = Some v"
    and w': "seed_user L (uuid v (uuid_reads v)) ''viewer'' ''viewer123'' ''viewer''
       (to_rfc3339 L (wall w (wall_reads w))) (snd (new_uuid v)) = Some w'" by metis
  have "account_added L (uuid w ?k) ''admin'' ''admin123'' ''admin''
      (w\<lparr>sql_calls := sql_calls w + 2 + 1, uuid_reads := ?k + 1, salt_reads := salt_reads w + 1,
         wall_reads := wall_reads w + 1\<rparr>) (admin_world L h w)"
    unfolding admin_world_def by (rule account_added_insert [OF assms(1) h]) (simp_all add: assms(2,3))
  then obtain a where 1: "healthy (admin_world L h w)" "uuid (admin_world L h w) = uuid w"
    "uuid_reads (admin_world L h w) = ?k + 1" "users (admin_world L h w) = [a]" "us_id a = uuid w ?k"
    "us_username a = ''admin''" "us_role a = ''admin''" "verify_password L ''admin123'' (us_password_hash a)"
    by (auto simp: account_added_def assms(3))
  have "account_added L (uuid w (?k + 1)) ''operator'' ''operator123'' ''operator''
      (snd (new_uuid (admin_world L h w))) v"
    by (rule seed_user_added [OF assms(1) _ v [unfolded 1]]) (simp_all add: 1 uu new_uuid_def)
  then obtain b where 2: "healthy v" "uuid v = uuid w" "uuid_reads v = ?k + 2" "users v = [a, b]"
    "us_id b = uuid w (?k + 1)" "us_username b = ''operator''" "us_role b = ''operator''"
    "verify_password L ''operator123'' (us_password_hash b)"
    by (auto simp: account_added_def 1 new_uuid_def)
  have "account_added L (uuid w (?k + 2)) ''viewer'' ''viewer123'' ''viewer'' (snd (new_uuid v)) w'"
    by (rule seed_user_added [OF assms(1) _ w' [unfolded 2]]) (simp_all add: 2 1 uu new_uuid_def)
  then show ?thesis using 1 2 by (auto simp: account_added_def new_uuid_def)
qed

text \<open>
  The server seeds accounts that its own rules refuse. On an empty database start-up creates the
  three accounts admin, operator and viewer with the passwords admin123, operator123 and viewer123,
  which verify; none of the three passes the complexity rules that new users must meet.
\<close>
theorem seeded_accounts:
  assumes "argon2_correct L" and "ascii_upper L" and "healthy w" and "users w = []"
    and "inj (uuid w)" and "init_auth_tables L w = Some w'"
  shows "map (\<lambda>u. (us_username u, us_role u)) (users w') =
      [(''admin'', ''admin''), (''operator'', ''operator''), (''viewer'', ''viewer'')] \<and>
    list_all2 (\<lambda>u p. verify_password L p (us_password_hash u) \<and>
       \<not> is_ok (validate_password_complexity L p))
      (users w') [''admin123'', ''operator123'', ''viewer123'']"
proof -
  have "\<not> is_ok (validate_password_complexity L ''admin123'')"
    "\<not> is_ok (validate_password_complexity L ''operator123'')"
    "\<not> is_ok (validate_password_complexity L ''viewer123'')"
    by (rule no_upper_weak [OF assms(2)], simp)+
  with seeded_users [OF assms(1,3-6)] show ?thesis by auto
qed

lemma sample_ascii: "ascii_upper sample_libs"
  by (simp add: ascii_upper_def sample_libs_def)

lemma sample_init_auth:
  assumes "healthy w" shows "\<exists>w'. init_auth_tables sample_libs w = Some w'"
proof -
  have hash: "hash_password sample_libs p w = (Inr (''$'' @ p), w\<lparr>salt_reads := salt_reads w + 1\<rparr>)" for p w
    by (simp add: hash_password_eq sample_libs_def)
  have seed: "\<exists>w'. seed_user sample_libs i n p r now w = Some w'" for i n p r now w
    by (simp add: seed_user_def hash)
  have two: "create_tables 2 w = Some (w\<lparr>sql_calls := sql_calls w + 2\<rparr>)"
    using assms by (simp add: numeral_2_eq_2 sql_def)
  show ?thesis
    unfolding init_auth_tables_def two option.case hash Let_def sql_def
    using seed assms by (auto simp: new_uuid_def utc_now_def split: option.split prod.split)
      (metis option.distinct(1))+
qed

theorem seeded_accounts_witness:
  "\<exists>w'. init_auth_tables sample_libs sample_world = Some w' \<and> length (users w') = 3 \<and>
     \<not> is_ok (validate_password_complexity sample_libs ''admin123'')"
proof -
  have inj: "inj (uuid sample_world)"
    by (rule injI) (simp add: sample_world_def fresh_world_def)
  have "\<exists>w'. init_auth_tables sample_libs sample_world = Some w'"
    by (rule sample_init_auth) (rule sample_healthy)
  then obtain w' where w': "init_auth_tables sample_libs sample_world = Some w'" ..
  from seeded_accounts [OF sample_argon2 sample_ascii sample_healthy _ inj w'] w' show ?thesis
    by (auto simp: list_all2_Cons2)
qed

text \<open>
  A query of the audit trail is exact: the answer holds the entries that satisfy every given
  filter, newest first, at most the limit (100 when none is given).
\<close>
theorem audit_query_exact:
  assumes "healthy w" and "tbl_ok ae_id (audit_trail w)"
  shows "fst (audit_rows p w) = sql_limit (case uq_limit p of None \<Rightarrow> 100 | Some n \<Rightarrow> n)
    (rev (filter (\<lambda>e. (\<forall>x. uq_user_id p = Some x \<longrightarrow> ae_user_id e = x) \<and>
       (\<forall>x. uq_device_id p = Some x \<longrightarrow> ae_device_id e = Some x) \<and>
       (\<forall>x. uq_action p = Some x \<longrightarrow> ae_action e = x)) (rows (audit_trail w))))"
proof -
  have "audit_where p = (\<lambda>e. (\<forall>x. uq_user_id p = Some x \<longrightarrow> ae_user_id e = x) \<and>
       (\<forall>x. uq_device_id p = Some x \<longrightarrow> ae_device_id e = Some x) \<and>
       (\<forall>x. uq_action p = Some x \<longrightarrow> ae_action e = x))"
    by (auto simp: audit_where_def fun_eq_iff split: option.split)
  then show ?thesis
    using assms by (simp add: audit_rows_def env_defs Let_def order_desc_rows)
qed

theorem audit_query_exact_witness:
  "fst (audit_rows \<lparr>uq_user_id = Some ''u1'', uq_device_id = None, uq_action = None, uq_limit = None\<rparr>
     sample_world) = []"
proof -
  have "tbl_ok ae_id (audit_trail sample_world)" by simp
  from audit_query_exact [OF sample_healthy this] show ?thesis
    by (simp add: empty_table_def sql_limit_def)
qed
end
