(* ===== verification/Registry.thy ===== *)
theory Registry
  imports State "HOL-Library.AList"
begin

text \<open>
  The device registry: the device handlers of \<open>server/src/routes.rs\<close> (list, add, remove, disconnect,
  connect) and the two loops of \<open>server/src/main.rs\<close> that fill the registry at start-up. A handler
  that takes the lock twice is written as the two parts between which other requests may run: the
  check, and the start of the task. A panic of a handler or of start-up is \<open>None\<close>. \<open>registry_ok\<close> is
  the invariant that ties the registry to the polling tasks; it holds as long as the handlers run
  one after the other.
\<close>

section \<open>Responses\<close>

definition api_ok :: "'a \<Rightarrow> 'a api_response" where
  "api_ok x = \<lparr>success = True, data = Some x, api_error = None\<rparr>"

definition api_err :: "string \<Rightarrow> 'a api_response" where
  "api_err e = \<lparr>success = False, data = None, api_error = Some e\<rparr>"

lemma api_simps [simp]:
  "success (api_ok x)" "data (api_ok x) = Some x" "\<not> success (api_err e)" "data (api_err e) = None"
  "api_error (api_err e) = Some e" "api_error (api_ok x) = None"
  by (simp_all add: api_ok_def api_err_def)

section \<open>The handlers\<close>

text \<open>\<open>HashMap::get\<close>, \<open>insert\<close> and \<open>remove\<close> on the registry.\<close>
definition reg_get :: "string \<Rightarrow> app_state \<Rightarrow> device_handle option" where
  "reg_get i a = map_of (app_devices a) i"

definition reg_insert :: "string \<Rightarrow> device_handle \<Rightarrow> app_state \<Rightarrow> app_state" where
  "reg_insert i h a = a\<lparr>app_devices := AList.update i h (app_devices a)\<rparr>"

definition reg_remove :: "string \<Rightarrow> app_state \<Rightarrow> app_state" where
  "reg_remove i a = a\<lparr>app_devices := AList.delete i (app_devices a)\<rparr>"

text \<open>
  The client of a device, by its protocol: \<open>Modbus\<close> addresses must parse (\<open>None\<close> is the panic), and
  other protocols than the two are refused with their name.
\<close>
definition new_client :: "libs \<Rightarrow> device_config \<Rightarrow> unit result option" where
  "new_client L dev =
     (if dc_protocol dev = ''modbus''
      then (if parse_socket_addr L (dc_address dev) then Some (Inr ()) else None)
      else if dc_protocol dev = ''opcua'' then Some (Inr ())
      else Some (Inl (dc_protocol dev)))"

lemma new_client_modbus:
  "dc_protocol dev = ''modbus'' \<Longrightarrow>
     new_client L dev = None \<longleftrightarrow> modbus_new L (dc_address dev) cs rs ws = None"
  by (simp add: new_client_def modbus_new_def)

definition plc_device_of :: "device_config \<Rightarrow> bool \<Rightarrow> plc_device" where
  "plc_device_of dev online = \<lparr>pv_id = dc_id dev, pv_name = dc_name dev,
     pv_address = dc_address dev, pv_protocol = dc_protocol dev, pv_is_connected = online\<rparr>"

definition get_devices :: "app_state \<Rightarrow> plc_device list api_response" where
  "get_devices a = api_ok (map (\<lambda>(i, h). plc_device_of (dh_config h) (\<not> is_finished a (dh_task h)))
     (app_devices a))"

definition config_of_request :: "add_device_request \<Rightarrow> device_config" where
  "config_of_request req = \<lparr>dc_id = ar_id req, dc_name = ar_name req, dc_address = ar_address req,
     dc_protocol = ar_protocol req,
     dc_poll_rate_ms = (case ar_poll_rate_ms req of None \<Rightarrow> 1000 | Some r \<Rightarrow> r),
     dc_register_start = ar_register_start req, dc_register_count = ar_register_count req,
     dc_writable = ar_writable req\<rparr>"

text \<open>Start the task of a device, whose write channel has the task at its other end.\<close>
definition start_polling :: "device_config \<Rightarrow> app_state \<Rightarrow> device_handle \<times> app_state" where
  "start_polling dev a =
     (let (task, a) = spawn_polling dev a
      in (\<lparr>dh_write_tx = task, dh_task = task, dh_config = dev\<rparr>, a))"

definition add_device_start ::
    "libs \<Rightarrow> add_device_request \<Rightarrow> app_state \<Rightarrow> (plc_device api_response \<times> app_state) option" where
  "add_device_start L req a =
     (let dev = config_of_request req in
      case new_client L dev of
        None \<Rightarrow> None
      | Some (Inl other) \<Rightarrow> Some (api_err (''Unsupported protocol: '' @ other), a)
      | Some (Inr _) \<Rightarrow>
         (let (h, a) = start_polling dev a;
              a = reg_insert (dc_id dev) h a;
              a = do_db (save_device L dev) a
          in Some (api_ok (plc_device_of dev True), a)))"

definition add_device ::
    "libs \<Rightarrow> add_device_request \<Rightarrow> app_state \<Rightarrow> (plc_device api_response \<times> app_state) option" where
  "add_device L req a =
     (if reg_get (ar_id req) a \<noteq> None
      then Some (api_err (''Device '' @ quoted (ar_id req) @ '' already exists''), a)
      else add_device_start L req a)"

definition remove_device :: "string \<Rightarrow> app_state \<Rightarrow> string api_response \<times> app_state" where
  "remove_device i a =
     (case reg_get i a of
        Some h \<Rightarrow>
          (let a = abort_task (dh_task h) (reg_remove i a); a = do_db (delete_device i) a
           in (api_ok (''Device '' @ quoted i @ '' removed''), a))
      | None \<Rightarrow> (api_err (''Device '' @ quoted i @ '' not found''), a))"

definition disconnect_device :: "string \<Rightarrow> app_state \<Rightarrow> string api_response \<times> app_state" where
  "disconnect_device i a =
     (case reg_get i a of
        None \<Rightarrow> (api_err (''Device '' @ quoted i @ '' not found''), a)
      | Some h \<Rightarrow>
          if is_finished a (dh_task h)
          then (api_err (''Device '' @ quoted i @ '' is already disconnected''), a)
          else (api_ok (''Device '' @ quoted i @ '' disconnected''), abort_task (dh_task h) a))"

definition connect_device_start ::
    "libs \<Rightarrow> string \<Rightarrow> device_config \<Rightarrow> app_state \<Rightarrow>
     (plc_device api_response \<times> app_state) option" where
  "connect_device_start L i dev a =
     (case new_client L dev of
        None \<Rightarrow> None
      | Some (Inl other) \<Rightarrow> Some (api_err (''Unsupported protocol: '' @ other), a)
      | Some (Inr _) \<Rightarrow>
         (let (h, a) = start_polling dev a;
              a = (case reg_get i a of None \<Rightarrow> a
                | Some h' \<Rightarrow> reg_insert i (h'\<lparr>dh_task := dh_task h, dh_write_tx := dh_write_tx h\<rparr>) a)
          in Some (api_ok (plc_device_of dev True), a)))"

definition connect_device ::
    "libs \<Rightarrow> string \<Rightarrow> app_state \<Rightarrow> (plc_device api_response \<times> app_state) option" where
  "connect_device L i a =
     (case reg_get i a of
        None \<Rightarrow> Some (api_err (''Device '' @ quoted i @ '' not found''), a)
      | Some h \<Rightarrow>
          if \<not> is_finished a (dh_task h)
          then Some (api_err (''Device '' @ quoted i @ '' is already connected''), a)
          else connect_device_start L i (dh_config h) a)"

section \<open>Start-up\<close>

text \<open>The devices of the configuration file; one with another protocol is skipped.\<close>
fun start_configured :: "libs \<Rightarrow> device_config list \<Rightarrow> app_state \<Rightarrow> app_state option" where
  "start_configured L [] a = Some a"
| "start_configured L (dev # devs) a =
     (case new_client L dev of
        None \<Rightarrow> None
      | Some (Inl other) \<Rightarrow> start_configured L devs a
      | Some (Inr _) \<Rightarrow>
         (let (h, a) = start_polling dev a in start_configured L devs (reg_insert (dc_id dev) h a)))"

text \<open>The devices of the database that the registry does not have yet.\<close>
fun restore_devices :: "libs \<Rightarrow> device_config list \<Rightarrow> app_state \<Rightarrow> app_state option" where
  "restore_devices L [] a = Some a"
| "restore_devices L (dev # devs) a =
     (if reg_get (dc_id dev) a \<noteq> None then restore_devices L devs a
      else case new_client L dev of
        None \<Rightarrow> None
      | Some (Inl other) \<Rightarrow> restore_devices L devs a
      | Some (Inr _) \<Rightarrow>
         (let (h, a) = start_polling dev a in restore_devices L devs (reg_insert (dc_id dev) h a)))"

definition start_devices :: "libs \<Rightarrow> app_config \<Rightarrow> app_state \<Rightarrow> app_state option" where
  "start_devices L config a =
     (case start_configured L (ac_devices config) a of
        None \<Rightarrow> None
      | Some a \<Rightarrow> (let (db_devices, a) = on_db (load_devices L) a in restore_devices L db_devices a))"

section \<open>Registry and tasks\<close>

text \<open>
  The registry is keyed by the devices' ids; each handle names one polling task of its own, which
  runs with the handle's configuration; and every task that still runs is one of these.
\<close>
definition registry_ok :: "app_state \<Rightarrow> bool" where
  "registry_ok a \<longleftrightarrow> distinct (map fst (app_devices a)) \<and>
     (\<forall>i h. reg_get i a = Some h \<longrightarrow> dc_id (dh_config h) = i \<and> dh_write_tx h = dh_task h \<and>
        dh_task h < length (app_tasks a) \<and> app_tasks a ! dh_task h = dh_config h) \<and>
     (\<forall>i j h k. reg_get i a = Some h \<and> reg_get j a = Some k \<and> dh_task h = dh_task k \<longrightarrow> i = j) \<and>
     app_stopped a \<subseteq> {..<length (app_tasks a)} \<and>
     (\<forall>t < length (app_tasks a). t \<notin> app_stopped a \<longrightarrow>
        (\<exists>i h. reg_get i a = Some h \<and> dh_task h = t))"

text \<open>A polling task that runs and that the registry does not know.\<close>
definition orphan :: "nat \<Rightarrow> app_state \<Rightarrow> bool" where
  "orphan t a \<longleftrightarrow> t < length (app_tasks a) \<and> t \<notin> app_stopped a \<and>
     (\<forall>i h. reg_get i a = Some h \<longrightarrow> dh_task h \<noteq> t)"

lemma registry_ok_no_orphan: "registry_ok a \<Longrightarrow> \<not> orphan t a"
  by (auto simp: registry_ok_def orphan_def)

lemma reg_get_simps [simp]:
  "reg_get j (reg_insert i h a) = (if j = i then Some h else reg_get j a)"
  "reg_get j (reg_remove i a) = (if j = i then None else reg_get j a)"
  "reg_get j (abort_task t a) = reg_get j a"
  "reg_get j (do_db f a) = reg_get j a"
  "reg_get j (snd (on_db g a)) = reg_get j a"
  "reg_get j (snd (start_polling dev a)) = reg_get j a"
  by (simp_all add: reg_get_def reg_insert_def reg_remove_def abort_task_def start_polling_def
      spawn_polling_def update_conv' delete_conv')

lemma reg_tasks [simp]:
  "app_tasks (reg_insert i h a) = app_tasks a" "app_stopped (reg_insert i h a) = app_stopped a"
  "app_tasks (reg_remove i a) = app_tasks a" "app_stopped (reg_remove i a) = app_stopped a"
  "app_tasks (abort_task t a) = app_tasks a"
  "app_stopped (abort_task t a) = insert t (app_stopped a)"
  "app_tasks (snd (start_polling dev a)) = app_tasks a @ [dev]"
  "app_stopped (snd (start_polling dev a)) = app_stopped a"
  "fst (start_polling dev a) =
     \<lparr>dh_write_tx = length (app_tasks a), dh_task = length (app_tasks a), dh_config = dev\<rparr>"
  by (simp_all add: reg_insert_def reg_remove_def abort_task_def start_polling_def
      spawn_polling_def)

lemma reg_keys [simp]:
  "distinct (map fst (app_devices a)) \<Longrightarrow> distinct (map fst (app_devices (reg_insert i h a)))"
  "distinct (map fst (app_devices a)) \<Longrightarrow> distinct (map fst (app_devices (reg_remove i a)))"
  "app_devices (abort_task t a) = app_devices a"
  "app_devices (snd (start_polling dev a)) = app_devices a"
  by (simp_all add: reg_insert_def reg_remove_def abort_task_def start_polling_def
      spawn_polling_def distinct_update distinct_delete)

lemma registry_ok_db [simp]:
  "registry_ok (do_db f a) = registry_ok a" "registry_ok (snd (on_db g a)) = registry_ok a"
  by (simp_all add: registry_ok_def)

lemma registry_ok_new: "registry_ok (app_new w config)"
  by (simp add: registry_ok_def app_new_def reg_get_def)

text \<open>A fresh task for a device that has none running.\<close>
lemma registry_ok_start:
  assumes "registry_ok a" and "dc_id dev = i"
    and "\<And>h. reg_get i a = Some h \<Longrightarrow> dh_task h \<in> app_stopped a"
  shows "registry_ok (reg_insert i (fst (start_polling dev a)) (snd (start_polling dev a)))"
  unfolding registry_ok_def
proof (intro conjI allI impI)
  fix t assume t: "t < length (app_tasks (reg_insert i (fst (start_polling dev a)) (snd (start_polling dev a))))"
    "t \<notin> app_stopped (reg_insert i (fst (start_polling dev a)) (snd (start_polling dev a)))"
  show "\<exists>j h. reg_get j (reg_insert i (fst (start_polling dev a)) (snd (start_polling dev a))) = Some h \<and>
      dh_task h = t"
  proof (cases "t = length (app_tasks a)")
    case False
    with t have "t < length (app_tasks a)" "t \<notin> app_stopped a" by auto
    with assms(1) obtain j h where "reg_get j a = Some h" "dh_task h = t"
      unfolding registry_ok_def by blast
    with assms(3) t(2) show ?thesis by (intro exI [of _ j] exI [of _ h]) auto
  qed auto
qed (use assms in \<open>fastforce simp: registry_ok_def nth_append split: if_splits\<close>)+

lemmas registry_ok_started = registry_ok_start [unfolded reg_tasks]

lemma registry_ok_abort:
  "registry_ok a \<Longrightarrow> reg_get i a = Some h \<Longrightarrow> registry_ok (abort_task (dh_task h) a)"
  by (fastforce simp: registry_ok_def)

lemma registry_ok_remove:
  assumes "registry_ok a" and "reg_get i a = Some h"
  shows "registry_ok (abort_task (dh_task h) (reg_remove i a))"
  unfolding registry_ok_def
proof (intro conjI allI impI)
  fix t assume t: "t < length (app_tasks (abort_task (dh_task h) (reg_remove i a)))"
    "t \<notin> app_stopped (abort_task (dh_task h) (reg_remove i a))"
  then have "t < length (app_tasks a)" "t \<notin> app_stopped a" by auto
  with assms(1) obtain j k where "reg_get j a = Some k" "dh_task k = t"
    unfolding registry_ok_def by blast
  moreover from this t assms(2) have "j \<noteq> i" by auto
  ultimately show "\<exists>j k. reg_get j (abort_task (dh_task h) (reg_remove i a)) = Some k \<and> dh_task k = t"
    by (intro exI [of _ j] exI [of _ k]) auto
qed (use assms in \<open>fastforce simp: registry_ok_def split: if_splits\<close>)+

section \<open>Requests one after the other\<close>

datatype registry_op =
  Add add_device_request | Remove string | Disconnect string | Connect string | Ends string

text \<open>
  The effect of a request on the shared state: a handler that panics has changed nothing. \<open>Ends\<close> is
  the end of a device's task of its own, by a panic.
\<close>
fun run_registry_op :: "libs \<Rightarrow> registry_op \<Rightarrow> app_state \<Rightarrow> app_state" where
  "run_registry_op L (Add req) a = (case add_device L req a of None \<Rightarrow> a | Some (r, a') \<Rightarrow> a')"
| "run_registry_op L (Remove i) a = snd (remove_device i a)"
| "run_registry_op L (Disconnect i) a = snd (disconnect_device i a)"
| "run_registry_op L (Connect i) a = (case connect_device L i a of None \<Rightarrow> a | Some (r, a') \<Rightarrow> a')"
| "run_registry_op L (Ends i) a =
     (case reg_get i a of None \<Rightarrow> a | Some h \<Rightarrow> abort_task (dh_task h) a)"

definition run_registry_ops :: "libs \<Rightarrow> registry_op list \<Rightarrow> app_state \<Rightarrow> app_state" where
  "run_registry_ops L ops a = fold (run_registry_op L) ops a"

lemma config_of_request_id [simp]: "dc_id (config_of_request req) = ar_id req"
  by (simp add: config_of_request_def)

lemma add_device_start_ok:
  "registry_ok a \<Longrightarrow> reg_get (ar_id req) a = None \<Longrightarrow> add_device_start L req a = Some (r, b) \<Longrightarrow>
     registry_ok b"
  by (auto simp: add_device_start_def Let_def split_beta
      split: option.splits sum.splits intro!: registry_ok_started)

lemma reg_insert_reconnect:
  assumes "registry_ok a" and "reg_get i a = Some h" and "dh_task h \<in> app_stopped a"
  shows "registry_ok (reg_insert i (h\<lparr>dh_task := length (app_tasks a),
    dh_write_tx := length (app_tasks a)\<rparr>) (snd (start_polling (dh_config h) a)))"
proof -
  have eq: "h\<lparr>dh_task := length (app_tasks a), dh_write_tx := length (app_tasks a)\<rparr> =
      \<lparr>dh_write_tx = length (app_tasks a), dh_task = length (app_tasks a), dh_config = dh_config h\<rparr>"
    by (cases h) simp
  have "dc_id (dh_config h) = i" using assms by (auto simp: registry_ok_def)
  then show ?thesis unfolding eq
    by (rule registry_ok_started [OF assms(1)]) (use assms in auto)
qed

lemma connect_device_start_ok:
  assumes "registry_ok a" and "reg_get i a = Some h" and "dh_task h \<in> app_stopped a"
    and "connect_device_start L i (dh_config h) a = Some (r, b)"
  shows "registry_ok b"
  using assms(4) assms(1) reg_insert_reconnect [OF assms(1-3)] assms(2)
  by (auto simp: connect_device_start_def Let_def split_beta split: option.splits sum.splits)

lemma run_registry_op_ok [keeps]:
  assumes "registry_ok a" shows "registry_ok (run_registry_op L x a)"
  using assms
  by (cases x) (auto simp: add_device_def remove_device_def disconnect_device_def connect_device_def
      is_finished_def split: option.split
      intro: registry_ok_abort registry_ok_remove add_device_start_ok connect_device_start_ok)

lemma run_registry_ops_ok: "registry_ok a \<Longrightarrow> registry_ok (run_registry_ops L ops a)"
  by (induction ops arbitrary: a) (simp_all add: run_registry_ops_def keeps)

section \<open>Start-up\<close>

lemma start_configured_ok:
  assumes "start_configured L devs a = Some b" and "registry_ok a" and "distinct (map dc_id devs)"
    and "\<forall>d \<in> set devs. reg_get (dc_id d) a = None"
  shows "registry_ok b"
  using assms
proof (induction L devs a rule: start_configured.induct)
  case (2 L dev devs a)
  obtain h c where sp: "start_polling dev a = (h, c)" by fastforce
  have "registry_ok (reg_insert (dc_id dev) h c)"
    using registry_ok_start [of a dev "dc_id dev"] "2.prems" by (simp add: sp del: reg_tasks)
  moreover have "reg_get j c = reg_get j a" for j
    using reg_get_simps(6) [of j dev a] by (simp add: sp)
  then have "\<forall>d \<in> set devs. reg_get (dc_id d) (reg_insert (dc_id dev) h c) = None"
    using "2.prems"(3,4) by (auto simp: image_iff)
  moreover have "distinct (map dc_id devs)" using "2.prems"(3) by simp
  ultimately show ?case using 2 sp
    by (auto split: option.splits sum.splits)
qed simp

lemma restore_devices_ok:
  assumes "restore_devices L devs a = Some b" and "registry_ok a"
  shows "registry_ok b"
  using assms
proof (induction L devs a rule: restore_devices.induct)
  case (2 L dev devs a)
  obtain h c where sp: "start_polling dev a = (h, c)" by fastforce
  have "reg_get (dc_id dev) a = None \<Longrightarrow> registry_ok (reg_insert (dc_id dev) h c)"
    using registry_ok_start [of a dev "dc_id dev"] "2.prems" by (simp add: sp del: reg_tasks)
  then show ?case using 2 sp by (auto split: option.splits sum.splits if_splits)
qed simp

lemma start_devices_ok:
  assumes "start_devices L config (app_new w config) = Some a"
    and "distinct (map dc_id (ac_devices config))"
  shows "registry_ok a"
proof -
  obtain b where b: "start_configured L (ac_devices config) (app_new w config) = Some b"
    and a: "restore_devices L (fst (load_devices L (app_db b))) (snd (on_db (load_devices L) b)) = Some a"
    using assms(1) by (auto simp: start_devices_def split_beta split: option.splits)
  have "\<forall>d \<in> set (ac_devices config). reg_get (dc_id d) (app_new w config) = None"
    by (simp add: reg_get_def app_new_def)
  from start_configured_ok [OF b registry_ok_new assms(2) this] have "registry_ok b" .
  then show ?thesis using restore_devices_ok [OF a] by simp
qed


text \<open>
  One running task per device, and none besides. Start the server with a configuration whose device
  ids are distinct, and let it serve any sequence of requests that add, remove, disconnect and
  connect devices, while tasks may end by themselves: the registry's handles then name different
  tasks, each running its own device's configuration, and every task that still runs is the task
  of a registered device.
\<close>
theorem registry_invariant:
  assumes "start_devices L config (app_new w config) = Some a"
    and "distinct (map dc_id (ac_devices config))"
  shows "registry_ok (run_registry_ops L ops a) \<and> \<not> orphan t (run_registry_ops L ops a)"
  using run_registry_ops_ok [OF start_devices_ok [OF assms]] registry_ok_no_orphan by blast

lemma sample_start:
  "start_devices sample_libs sample_config (app_new sample_world sample_config) = Some
     (snd (on_db (load_devices sample_libs)
       (reg_insert ''plc-01'' (fst (start_polling sample_device (app_new sample_world sample_config)))
         (snd (start_polling sample_device (app_new sample_world sample_config))))))"
proof -
  have "ac_devices sample_config = [sample_device]"
    by (simp add: sample_config_def config_of_raw_def sample_raw_def)
  moreover have "new_client sample_libs sample_device = Some (Inr ())"
    by (simp add: new_client_def sample_device_def sample_libs_def)
  moreover have "dc_id sample_device = ''plc-01''" by (simp add: sample_device_def)
  moreover have "devices_tbl (app_db (reg_insert i h (snd (start_polling dev a)))) =
      devices_tbl (app_db a)" for i h dev a
    by (simp add: reg_insert_def start_polling_def spawn_polling_def)
  moreover have "fst (on_db (load_devices sample_libs) a) =
      (if sql_fault (app_db a) (sql_calls (app_db a)) = None
       then map (device_of_row sample_libs) (devices_tbl (app_db a)) else [])" for a
    by (simp add: load_devices_def env_defs split: option.split)
  ultimately show ?thesis
    by (simp add: start_devices_def split_beta app_new_def)
qed

theorem registry_invariant_witness:
  "\<not> orphan 0 (run_registry_ops sample_libs [Disconnect ''plc-01'', Connect ''plc-01'', Remove ''x'']
     (the (start_devices sample_libs sample_config (app_new sample_world sample_config))))"
proof -
  have "distinct (map dc_id (ac_devices sample_config))"
    by (simp add: sample_config_def config_of_raw_def sample_raw_def)
  from registry_invariant [OF sample_start this] show ?thesis
    by (simp add: sample_start)
qed

section \<open>Requests that overlap\<close>

lemma add_device_start_orphan:
  assumes "add_device_start L req a = Some (r, b)" and "orphan t a"
  shows "orphan t b"
  using assms by (fastforce simp: add_device_start_def orphan_def Let_def split_beta
      split: option.splits sum.splits if_splits)

lemma connect_device_start_orphan:
  assumes "connect_device_start L i dev a = Some (r, b)" and "orphan t a"
  shows "orphan t b"
  using assms by (fastforce simp: connect_device_start_def orphan_def Let_def split_beta
      split: option.splits sum.splits if_splits)

lemma orphan_abort:
  assumes "orphan t a" and "reg_get i a = Some h"
  shows "orphan t (abort_task (dh_task h) a)" "orphan t (abort_task (dh_task h) (reg_remove i a))"
proof -
  have "dh_task h \<noteq> t" using assms by (simp add: orphan_def)
  then show "orphan t (abort_task (dh_task h) a)" "orphan t (abort_task (dh_task h) (reg_remove i a))"
    using assms(1) by (auto simp: orphan_def)
qed

lemma orphan_db [simp]: "orphan t (do_db f a) = orphan t a"
  by (simp add: orphan_def)

lemma run_registry_op_orphan [keeps]:
  assumes "orphan t a" shows "orphan t (run_registry_op L x a)"
  using assms add_device_start_orphan connect_device_start_orphan
  by (cases x) (auto simp: add_device_def connect_device_def remove_device_def disconnect_device_def
      orphan_abort split: option.split)

lemma run_registry_ops_orphan: "orphan t a \<Longrightarrow> orphan t (run_registry_ops L ops a)"
  by (induction ops arbitrary: a) (simp_all add: run_registry_ops_def keeps)

text \<open>
  C23: two overlapping requests to add the same device leave a polling task that nobody can stop. Both
  requests may pass the check for an existing device before either has registered its own; when both
  then start polling, the first one's task runs outside the registry, and it still does after any
  sequence of further requests: the device is polled twice for good.
\<close>
theorem overlapping_adds_leak_a_task:
  assumes "registry_ok a" and "reg_get (ar_id req) a = None" and "ar_id req' = ar_id req"
    and "add_device_start L req a = Some (r, b)" and "success r"
    and "add_device_start L req' b = Some (r', c)" and "success r'"
  shows "orphan (length (app_tasks a)) (run_registry_ops L ops c) \<and>
    app_tasks c ! length (app_tasks a) = config_of_request req"
proof -
  have b: "app_tasks b = app_tasks a @ [config_of_request req]" "app_stopped b = app_stopped a"
    "reg_get j b = (if j = ar_id req then Some \<lparr>dh_write_tx = length (app_tasks a),
       dh_task = length (app_tasks a), dh_config = config_of_request req\<rparr> else reg_get j a)" for j
    using assms(4,5) by (auto simp: add_device_start_def Let_def split_beta
        split: option.splits sum.splits)
  have c: "app_tasks c = app_tasks b @ [config_of_request req']" "app_stopped c = app_stopped b"
    "reg_get j c = (if j = ar_id req then Some \<lparr>dh_write_tx = length (app_tasks b),
       dh_task = length (app_tasks b), dh_config = config_of_request req'\<rparr> else reg_get j b)" for j
    using assms(3,6,7) by (auto simp: add_device_start_def Let_def split_beta
        split: option.splits sum.splits)
  have "length (app_tasks a) \<notin> app_stopped a" using assms(1) by (auto simp: registry_ok_def)
  moreover have "reg_get j a = Some h \<Longrightarrow> dh_task h < length (app_tasks a)" for j h
    using assms(1) by (simp add: registry_ok_def)
  ultimately have "orphan (length (app_tasks a)) c"
    by (fastforce simp: orphan_def b c)
  then show ?thesis using run_registry_ops_orphan by (simp add: b c nth_append)
qed

definition sample_request :: add_device_request where
  "sample_request = \<lparr>ar_id = ''plc-02'', ar_name = ''Filler'', ar_address = ''opc.tcp://10.0.0.2:4840'',
     ar_protocol = ''opcua'', ar_poll_rate_ms = None, ar_register_start = 1028,
     ar_register_count = 8, ar_writable = [1034]\<rparr>"

theorem overlapping_adds_leak_a_task_witness:
  "\<exists>c. orphan 0 (run_registry_ops sample_libs [Remove ''plc-02'', Add sample_request] c)"
proof -
  have cl: "new_client sample_libs (config_of_request sample_request) = Some (Inr ())"
    by (simp add: new_client_def config_of_request_def sample_request_def)
  have "\<exists>r b. add_device_start sample_libs sample_request a = Some (r, b) \<and> success r" for a
    by (simp add: add_device_start_def cl Let_def split_beta)
  then obtain r b r' c where 1: "add_device_start sample_libs sample_request sample_app = Some (r, b)"
    "success r" and 2: "add_device_start sample_libs sample_request b = Some (r', c)" "success r'"
    by metis
  have "reg_get (ar_id sample_request) sample_app = None"
    by (simp add: sample_app_def app_new_def reg_get_def)
  moreover have "registry_ok sample_app" by (simp add: sample_app_def registry_ok_new)
  ultimately have "orphan (length (app_tasks sample_app)) (run_registry_ops sample_libs
      [Remove ''plc-02'', Add sample_request] c)"
    using overlapping_adds_leak_a_task [OF _ _ refl 1 2] by blast
  then show ?thesis by (auto simp: sample_app_def app_new_def)
qed

text \<open>
  C22: a connect request that is overtaken by a removal puts the wrong task behind a device. The request has
  found the device disconnected and has copied its configuration; before it registers the new task,
  the device is removed and added again with another configuration. Then the device's handle shows the new
  configuration, and its task and its write channel belong to the old one, so that writes checked against the
  new device go to the old address; and the new device's own task runs outside the registry.
\<close>
theorem late_connect_polls_removed_device:
  assumes "registry_ok a" and "reg_get i a = Some h" and "dh_task h \<in> app_stopped a"
    and "add_device L req (snd (remove_device i a)) = Some (r, b)" and "success r" and "ar_id req = i"
    and "connect_device_start L i (dh_config h) b = Some (r', c)" and "success r'"
  shows "\<exists>h'. reg_get i c = Some h' \<and> dh_config h' = config_of_request req \<and>
      app_tasks c ! dh_task h' = dh_config h \<and> dh_write_tx h' = dh_task h' \<and> dh_task h' \<notin> app_stopped c \<and>
      orphan (length (app_tasks a)) c \<and> app_tasks c ! length (app_tasks a) = config_of_request req"
proof -
  let ?a = "snd (remove_device i a)"
  have a: "app_tasks ?a = app_tasks a" "app_stopped ?a = app_stopped a"
    "reg_get j ?a = (if j = i then None else reg_get j a)" for j
    using assms(2,3) by (auto simp: remove_device_def Let_def)
  have b: "app_tasks b = app_tasks a @ [config_of_request req]" "app_stopped b = app_stopped a"
    "reg_get j b = (if j = i then Some \<lparr>dh_write_tx = length (app_tasks a),
       dh_task = length (app_tasks a), dh_config = config_of_request req\<rparr> else reg_get j a)" for j
    using assms(4-6) a by (auto simp: add_device_def add_device_start_def Let_def split_beta
        split: option.splits sum.splits if_splits)
  have c: "app_tasks c = app_tasks b @ [dh_config h]" "app_stopped c = app_stopped b"
    "reg_get j c = (if j = i then Some \<lparr>dh_write_tx = length (app_tasks b),
       dh_task = length (app_tasks b), dh_config = config_of_request req\<rparr> else reg_get j b)" for j
    using assms(7,8) b(3) [of i] by (auto simp: connect_device_start_def Let_def split_beta
        split: option.splits sum.splits)
  have "t \<notin> app_stopped a" if "length (app_tasks a) \<le> t" for t
    using assms(1) that by (auto simp: registry_ok_def)
  moreover have "reg_get j a = Some k \<Longrightarrow> dh_task k < length (app_tasks a)" for j k
    using assms(1) by (simp add: registry_ok_def)
  then have "reg_get j c = Some k \<Longrightarrow> dh_task k \<noteq> length (app_tasks a)" for j k
    by (force simp: c(3) b split: if_splits)
  ultimately show ?thesis by (simp add: orphan_def b c nth_append)
qed

text \<open>The sample device, disconnected, is replaced by one of the same id at another address.\<close>
theorem late_connect_polls_removed_device_witness:
  "\<exists>c h'. reg_get ''plc-01'' c = Some h' \<and> dc_address (dh_config h') = ''opc.tcp://10.0.0.2:4840'' \<and>
     app_tasks c ! dh_task h' = sample_device"
proof -
  define a where "a = abort_task 0 (reg_insert ''plc-01'' (fst (start_polling sample_device sample_app))
    (snd (start_polling sample_device sample_app)))"
  have s: "app_tasks sample_app = []" "registry_ok sample_app" "app_stopped sample_app = {}"
    "reg_get j sample_app = None" for j
    by (simp_all add: sample_app_def app_new_def reg_get_def registry_ok_def)
  have i: "dc_id sample_device = ''plc-01''" by (simp add: sample_device_def)
  have "registry_ok (reg_insert ''plc-01'' (fst (start_polling sample_device sample_app))
      (snd (start_polling sample_device sample_app)))"
    by (rule registry_ok_start [OF s(2) i]) (simp add: s)
  from registry_ok_abort [OF this, of "''plc-01''"] have ok: "registry_ok a" by (simp add: a_def s)
  have h: "reg_get ''plc-01'' a = Some \<lparr>dh_write_tx = 0, dh_task = 0, dh_config = sample_device\<rparr>"
    "0 \<in> app_stopped a" by (simp_all add: a_def s)
  let ?req = "sample_request\<lparr>ar_id := ''plc-01''\<rparr>"
  have cl: "new_client sample_libs (config_of_request ?req) = Some (Inr ())"
    "new_client sample_libs sample_device = Some (Inr ())"
    by (simp_all add: new_client_def config_of_request_def sample_request_def sample_device_def sample_libs_def)
  have "\<exists>r b. add_device sample_libs ?req (snd (remove_device ''plc-01'' a)) = Some (r, b) \<and> success r"
    by (simp add: add_device_def add_device_start_def cl Let_def split_beta remove_device_def h)
  then obtain r b where b: "add_device sample_libs ?req (snd (remove_device ''plc-01'' a)) = Some (r, b)"
    "success r" by blast
  have "\<exists>r' c. connect_device_start sample_libs ''plc-01'' sample_device b = Some (r', c) \<and> success r'"
    by (simp add: connect_device_start_def cl Let_def split_beta)
  then obtain r' c where c: "connect_device_start sample_libs ''plc-01'' sample_device b = Some (r', c)"
    "success r'" by blast
  have "ar_address ?req = ''opc.tcp://10.0.0.2:4840''" by (simp add: sample_request_def)
  moreover have "dc_address (config_of_request ?req) = ar_address ?req" by (simp add: config_of_request_def)
  ultimately show ?thesis
    using late_connect_polls_removed_device [OF ok h(1) _ b _ _ c(2)] c(1) h(2) by fastforce
qed


section \<open>Restarting\<close>

text \<open>The device with an id that a start-up loop takes from a list.\<close>
definition polled_device :: "string \<Rightarrow> device_config list \<Rightarrow> device_config option" where
  "polled_device i devs =
     find (\<lambda>d. dc_id d = i \<and> (dc_protocol d = ''modbus'' \<or> dc_protocol d = ''opcua'')) devs"

lemma polled_device_Cons [simp]:
  "polled_device i [] = None"
  "polled_device i (d # ds) =
     (if dc_id d = i \<and> (dc_protocol d = ''modbus'' \<or> dc_protocol d = ''opcua'') then Some d
      else polled_device i ds)"
  by (auto simp: polled_device_def)

lemma new_client_polled:
  "new_client L dev = Some (Inr u) \<Longrightarrow> dc_protocol dev = ''modbus'' \<or> dc_protocol dev = ''opcua''"
  "new_client L dev = Some (Inl e) \<Longrightarrow> dc_protocol dev \<noteq> ''modbus'' \<and> dc_protocol dev \<noteq> ''opcua''"
  by (auto simp: new_client_def split: if_splits)

definition registered :: "app_state \<Rightarrow> string \<Rightarrow> device_config option" where
  "registered a i = map_option dh_config (reg_get i a)"

lemma registered_start [simp]:
  "registered (reg_insert i (fst (start_polling dev a)) (snd (start_polling dev a))) j =
     (if j = i then Some dev else registered a j)"
  "registered (snd (on_db g a)) j = registered a j"
  by (simp_all add: registered_def)

lemma start_frame [simp]:
  "app_db (reg_insert i h a) = app_db a" "app_db (snd (start_polling dev a)) = app_db a"
  "app_db (reg_remove i a) = app_db a" "app_db (abort_task t a) = app_db a"
  by (simp_all add: reg_insert_def start_polling_def spawn_polling_def reg_remove_def abort_task_def)

lemma start_configured_registered:
  assumes "start_configured L devs a = Some b" and "distinct (map dc_id devs)"
  shows "registered b i = (case polled_device i devs of Some d \<Rightarrow> Some d | None \<Rightarrow> registered a i) \<and>
    app_db b = app_db a \<and> app_stopped b = app_stopped a"
  using assms
proof (induction L devs a rule: start_configured.induct)
  case (2 L dev devs a)
  let ?b = "reg_insert (dc_id dev) (fst (start_polling dev a)) (snd (start_polling dev a))"
  have none: "polled_device (dc_id dev) devs = None"
    using "2.prems"(2) by (auto simp: polled_device_def find_None_iff) (metis imageI)+
  show ?case
  proof (cases "new_client L dev")
    case (Some r)
    then show ?thesis
    proof (cases r)
      case (Inl e)
      then show ?thesis
        using 2 Some new_client_polled(2) [of L dev e] by simp
    next
      case (Inr u)
      have "start_configured L devs ?b = Some b"
        using "2.prems" Some Inr by (simp add: split_beta del: reg_tasks)
      from "2.IH"(2) [OF Some Inr refl prod.collapse this] "2.prems"(2) none
      have "registered b i = (case polled_device i devs of Some d \<Rightarrow> Some d | None \<Rightarrow> registered ?b i) \<and>
          app_db b = app_db a \<and> app_stopped b = app_stopped a" by simp
      then show ?thesis
        using none new_client_polled(1) [of L dev u] Some Inr
        by (auto simp del: reg_tasks split: option.split)
    qed
  qed (use "2.prems" in simp)
qed simp

lemma restore_devices_registered:
  assumes "restore_devices L devs a = Some b"
  shows "registered b i = (case registered a i of Some d \<Rightarrow> Some d | None \<Rightarrow> polled_device i devs) \<and>
    app_stopped b = app_stopped a"
  using assms
proof (induction L devs a rule: restore_devices.induct)
  case (2 L dev devs a)
  let ?b = "reg_insert (dc_id dev) (fst (start_polling dev a)) (snd (start_polling dev a))"
  show ?case
  proof (cases "reg_get (dc_id dev) a")
    case (Some h)
    then show ?thesis using 2 by (auto simp: registered_def split: option.splits)
  next
    case None
    then have free: "registered a (dc_id dev) = None" by (simp add: registered_def)
    show ?thesis
    proof (cases "new_client L dev")
      case (Some r)
      then show ?thesis
      proof (cases r)
        case (Inl e)
        then show ?thesis
          using 2 None Some new_client_polled(2) [of L dev e]
          by (simp split: option.split)
      next
        case (Inr u)
        have "restore_devices L devs ?b = Some b"
          using "2.prems" None Some Inr by (simp add: split_beta del: reg_tasks)
        from "2.IH"(3) [OF _ Some Inr refl prod.collapse this] None
        have "registered b i = (case registered ?b i of Some d \<Rightarrow> Some d | None \<Rightarrow> polled_device i devs) \<and>
            app_stopped b = app_stopped a" by simp
        then show ?thesis
          using free new_client_polled(1) [of L dev u] Some Inr
          by (auto simp del: reg_tasks split: option.split)
      qed
    qed (use "2.prems" None in simp)
  qed
qed (simp split: option.split)

lemma start_devices_registered:
  assumes "start_devices L config (app_new w config) = Some a"
    and "distinct (map dc_id (ac_devices config))"
  shows "registered a i = (case polled_device i (ac_devices config) of Some d \<Rightarrow> Some d
      | None \<Rightarrow> polled_device i (fst (load_devices L w))) \<and> app_stopped a = {}"
proof -
  obtain b where b: "start_configured L (ac_devices config) (app_new w config) = Some b"
    and a: "restore_devices L (fst (load_devices L (app_db b))) (snd (on_db (load_devices L) b)) = Some a"
    using assms(1) by (auto simp: start_devices_def split_beta split: option.splits)
  have new: "registered (app_new w config) i = None" "app_db (app_new w config) = w"
    "app_stopped (app_new w config) = {}"
    by (simp_all add: registered_def reg_get_def app_new_def)
  show ?thesis
    using start_configured_registered [OF b assms(2), of i] restore_devices_registered [OF a, of i] new
    by (auto split: option.splits)
qed


lemma polled_device_filter:
  "polled_device i (filter (\<lambda>d. dc_id d \<noteq> j) devs) = (if i = j then None else polled_device i devs)"
  by (induction devs) auto

lemma polled_device_append:
  "polled_device i (xs @ ys) = (case polled_device i xs of Some d \<Rightarrow> Some d | None \<Rightarrow> polled_device i ys)"
  by (induction xs) auto

text \<open>A device added at runtime is polled again after a restart, with the same configuration.\<close>
lemma added_device_restored:
  assumes "add_device L req a = Some (r, b)" and "success r" and "healthy (app_db a)"
    and "u16s_json_roundtrip L" and "distinct (map dc_id (ac_devices config))"
    and "polled_device (ar_id req) (ac_devices config) = None"
    and "start_devices L config (app_new (app_db b) config) = Some c"
  shows "registered c (ar_id req) = Some (config_of_request req)"
proof -
  have b: "app_db b = save_device L (config_of_request req) (app_db a)"
    and cl: "new_client L (config_of_request req) = Some (Inr ())"
    using assms(1,2) by (auto simp: add_device_def add_device_start_def Let_def split_beta
        split: if_splits option.splits sum.splits)
  have "polled_device (ar_id req) [config_of_request req] = Some (config_of_request req)"
    using new_client_polled(1) [OF cl] by auto
  then show ?thesis
    using start_devices_registered [OF assms(7,5), of "ar_id req"] assms(3,4,6)
    by (simp add: b load_saved polled_device_append polled_device_filter)
qed

text \<open>
  Removing a device lasts until the restart when the configuration file names it. A successful
  remove stops the device's task and deletes its row, so after a restart a device that was added at
  runtime stays away; but one that \<open>config.toml\<close> lists is polled again, with the file's settings.
\<close>
theorem removed_device_after_restart:
  assumes "remove_device i a = (r, b)" and "success r" and "healthy (app_db a)"
    and "distinct (map dc_id (ac_devices config))"
    and "start_devices L config (app_new (app_db b) config) = Some c"
  shows "reg_get i b = None \<and> registered c i = polled_device i (ac_devices config)"
proof -
  have b: "app_db b = delete_device i (app_db a)" "reg_get i b = None"
    using assms(1,2) by (auto simp: remove_device_def split: option.splits)
  then show ?thesis
    using start_devices_registered [OF assms(5,4), of i] assms(3)
    by (simp add: load_deleted polled_device_filter split: option.split)
qed

theorem removed_device_after_restart_witness:
  "\<exists>b c. success (fst (remove_device ''plc-01'' b)) \<and>
     start_devices sample_libs sample_config
       (app_new (app_db (snd (remove_device ''plc-01'' b))) sample_config) = Some c \<and>
     registered c ''plc-01'' = Some sample_device"
proof -
  let ?h = "\<lparr>dh_write_tx = 0, dh_task = 0, dh_config = sample_device\<rparr>"
  let ?b = "reg_insert ''plc-01'' ?h sample_app"
  have devs: "ac_devices sample_config = [sample_device]"
    by (simp add: sample_config_def config_of_raw_def sample_raw_def)
  have ok: "success (fst (remove_device ''plc-01'' ?b))" by (simp add: remove_device_def)
  have h: "healthy (app_db ?b)" by (simp add: sample_app_def app_new_def)
  have "devices_tbl (app_db (snd (remove_device ''plc-01'' ?b))) = []"
    by (simp add: remove_device_def delete_device_def env_defs sample_app_def app_new_def split: option.split)
  then have "fst (load_devices sample_libs (app_db (snd (remove_device ''plc-01'' ?b)))) = []"
    by (simp add: load_devices_def env_defs split: option.split)
  moreover have "new_client sample_libs sample_device = Some (Inr ())"
    by (simp add: new_client_def sample_device_def sample_libs_def)
  ultimately obtain c where c: "start_devices sample_libs sample_config
      (app_new (app_db (snd (remove_device ''plc-01'' ?b))) sample_config) = Some c"
    by (simp add: start_devices_def split_beta devs app_new_def)
  have "registered c ''plc-01'' = polled_device ''plc-01'' (ac_devices sample_config)"
    using removed_device_after_restart [OF surjective_pairing ok h _ c]
    by (simp add: devs)
  then have "registered c ''plc-01'' = Some sample_device"
    by (simp add: devs) (simp add: sample_device_def)
  with ok c show ?thesis by blast
qed

end
