(* ===== verification/Routes.thy ===== *)
theory Routes
  imports Auth Registry
begin

text \<open>
  The remaining handlers of \<open>server/src/routes.rs\<close>: history, register writes, alarms and batches. A
  handler that reads its body itself takes the bytes as they arrived (\<open>None\<close> when they cannot be
  read within the limit) and serde\_json's reader of the request type. What the device's task does
  with a queued write, and whatever else happens until it answers, is the parameter \<open>device\<close>: from
  the channel, the register, the value and the state it gives the answer (\<open>None\<close> when the answer
  channel is dropped) and the state then. The section on JSON holds the encodings of the responses.
\<close>

section \<open>Responses as JSON\<close>

text \<open>The derived \<open>Serialize\<close> instances.\<close>
definition api_http :: "('a \<Rightarrow> json) \<Rightarrow> 'a api_response \<Rightarrow> http_response" where
  "api_http f r = \<lparr>status = 200, body = JObj [(''success'', JBool (success r)),
     (''data'', case data r of None \<Rightarrow> JNull | Some x \<Rightarrow> f x), (''error'', jopt (api_error r))]\<rparr>"

definition plc_device_json :: "plc_device \<Rightarrow> json" where
  "plc_device_json d = JObj [(''id'', JStr (pv_id d)), (''name'', JStr (pv_name d)),
     (''address'', JStr (pv_address d)), (''protocol'', JStr (pv_protocol d)),
     (''is_connected'', JBool (pv_is_connected d))]"

definition reading_json :: "libs \<Rightarrow> plc_data \<Rightarrow> json" where
  "reading_json L d = JObj [(''device_id'', JStr (pd_device_id d)),
     (''register'', JInt (uint (pd_register d))), (''value'', JReal (pd_value d)),
     (''timestamp'', JStr (json_time L (pd_timestamp d)))]"

definition alarm_json :: "alarm \<Rightarrow> json" where
  "alarm_json a = JObj [(''id'', JInt (a_id a)), (''device_id'', JStr (a_device_id a)),
     (''register'', JInt (uint (a_register a))), (''label'', JStr (a_label a)),
     (''priority'', JStr (priority_as_str (a_priority a))),
     (''state'', JStr (alarm_state_as_str (a_state a))), (''value'', JReal (a_value a)),
     (''threshold'', JReal (a_threshold a)), (''message'', JStr (a_message a)),
     (''timestamp'', JStr (a_timestamp a)), (''acked_by'', jopt (a_acked_by a)),
     (''acked_at'', jopt (a_acked_at a)), (''shelved_until'', jopt (a_shelved_until a)),
     (''shelved_by'', jopt (a_shelved_by a)), (''cleared_at'', jopt (a_cleared_at a))]"

definition batch_json :: "batch_record \<Rightarrow> json" where
  "batch_json b = JObj [(''id'', JInt (b_id b)), (''batch_id'', JStr (b_batch_id b)),
     (''recipe_name'', JStr (b_recipe_name b)), (''device_id'', JStr (b_device_id b)),
     (''operator'', JStr (b_operator b)), (''status'', JStr (batch_status_as_str (b_status b))),
     (''start_time'', JStr (b_start_time b)), (''end_time'', jopt (b_end_time b)),
     (''notes'', jopt (b_notes b))]"

definition step_json :: "batch_step \<Rightarrow> json" where
  "step_json s = JObj [(''id'', JInt (bs_id s)), (''batch_record_id'', JInt (bs_batch_record_id s)),
     (''step_number'', JInt (bs_step_number s)), (''name'', JStr (bs_name s)),
     (''status'', JStr (bs_status s)), (''start_time'', JStr (bs_start_time s)),
     (''end_time'', jopt (bs_end_time s)), (''parameters'', jopt (bs_parameters s)),
     (''result'', jopt (bs_result s))]"

section \<open>History\<close>

definition get_history_route ::
    "libs \<Rightarrow> string \<Rightarrow> int option \<Rightarrow> app_state \<Rightarrow> plc_data list api_response \<times> app_state" where
  "get_history_route L dev limit a =
     (let limit = (case limit of None \<Rightarrow> 100 | Some n \<Rightarrow> n);
          (history, a) = on_db (get_history L dev limit) a
      in (api_ok history, a))"

section \<open>Register writes\<close>

type_synonym device_env =
  "nat \<Rightarrow> u16 \<Rightarrow> u16 \<Rightarrow> app_state \<Rightarrow> unit result option \<times> app_state"

definition write_details :: "libs \<Rightarrow> write_request \<Rightarrow> string" where
  "write_details L req = json_text L (JObj [(''register'', JInt (uint (wr_register req))),
     (''value'', JInt (uint (wr_value req)))])"

text \<open>The entry in the audit trail that a handler writes for the user of its claims, if any.\<close>
definition audit_as ::
    "libs \<Rightarrow> claims option \<Rightarrow> string \<Rightarrow> string option \<Rightarrow> string \<Rightarrow> app_state \<Rightarrow> app_state" where
  "audit_as L claims action device_id details a =
     (case claims of None \<Rightarrow> a
      | Some c \<Rightarrow> do_db (log_audit L (cl_user_id c) (cl_sub c) action device_id details None) a)"

definition post_write ::
    "libs \<Rightarrow> (string \<Rightarrow> write_request result) \<Rightarrow> device_env \<Rightarrow> claims option \<Rightarrow> string option \<Rightarrow>
     app_state \<Rightarrow> string api_response \<times> app_state" where
  "post_write L from_slice device claims bytes a =
     (case bytes of
        None \<Rightarrow> (api_err ''Invalid request body'', a)
      | Some bytes \<Rightarrow>
       (case from_slice bytes of
          Inl e \<Rightarrow> (api_err (''Invalid JSON: '' @ e), a)
        | Inr req \<Rightarrow>
         (case reg_get (wr_device_id req) a of
            None \<Rightarrow> (api_err (''Unknown device: '' @ wr_device_id req), a)
          | Some h \<Rightarrow>
            if wr_register req \<notin> set (dc_writable (dh_config h))
            then (api_err (''Register '' @ show_u16 (wr_register req) @ '' is not writable on '' @
              quoted (wr_device_id req)), a)
            else if is_finished a (dh_write_tx h)
            then (api_err (''Failed to queue write: '' @ ''channel closed''), a)
            else (case device (dh_write_tx h) (wr_register req) (wr_value req) a of
               (Some (Inr _), a) \<Rightarrow>
                 (let a = audit_as L claims ''write_register'' (Some (wr_device_id req))
                        (write_details L req) a
                  in (api_ok (''['' @ wr_device_id req @ ''] Register '' @ show_u16 (wr_register req) @
                        '' = '' @ show_u16 (wr_value req)), a))
             | (Some (Inl e), a) \<Rightarrow> (api_err (''Write failed: '' @ e), a)
             | (None, a) \<Rightarrow> (api_err ''Write channel dropped'', a)))))"

section \<open>Alarms\<close>

definition list_alarms_route ::
    "libs \<Rightarrow> alarm_query_params \<Rightarrow> app_state \<Rightarrow> alarm list api_response \<times> app_state" where
  "list_alarms_route L params a =
     (let a = do_db (unshelve_expired L) a; (found, a) = on_db (list_alarms params) a
      in (api_ok found, a))"

definition get_alarm_route :: "int \<Rightarrow> app_state \<Rightarrow> alarm api_response \<times> app_state" where
  "get_alarm_route i a =
     (case on_db (get_alarm i) a of
        (Some x, a) \<Rightarrow> (api_ok x, a)
      | (None, a) \<Rightarrow> (api_err ''Alarm not found'', a))"

text \<open>The name that the alarm table records: empty without claims.\<close>
definition username_of :: "claims option \<Rightarrow> string" where
  "username_of claims = (case claims of None \<Rightarrow> '''' | Some c \<Rightarrow> cl_sub c)"

definition ack_alarm_route ::
    "libs \<Rightarrow> (string \<Rightarrow> string option result) \<Rightarrow> int \<Rightarrow> claims option \<Rightarrow> string option \<Rightarrow>
     app_state \<Rightarrow> string api_response \<times> app_state" where
  "ack_alarm_route L from_slice i claims bytes a =
     (let bytes = (case bytes of None \<Rightarrow> '''' | Some b \<Rightarrow> b);
          comment = (case from_slice bytes of Inl e \<Rightarrow> None | Inr c \<Rightarrow> c) in
      case on_db (ack_alarm L i (username_of claims) comment) a of
        (Inr _, a) \<Rightarrow>
          (let a = audit_as L claims ''alarm_ack'' None (''Acknowledged alarm #'' @ show_int i) a
           in (api_ok (''Alarm #'' @ show_int i @ '' acknowledged''), a))
      | (Inl e, a) \<Rightarrow> (api_err e, a))"

definition shelve_alarm_route ::
    "libs \<Rightarrow> (string \<Rightarrow> shelve_request result) \<Rightarrow> int \<Rightarrow> claims option \<Rightarrow> string option \<Rightarrow>
     app_state \<Rightarrow> string api_response \<times> app_state" where
  "shelve_alarm_route L from_slice i claims bytes a =
     (let bytes = (case bytes of None \<Rightarrow> '''' | Some b \<Rightarrow> b) in
      case from_slice bytes of
        Inl e \<Rightarrow> (api_err (''Invalid JSON: '' @ e), a)
      | Inr req \<Rightarrow>
        (case on_db (shelve_alarm L i (username_of claims) (sh_duration_minutes req)
             (sh_reason req)) a of
           (Inr _, a) \<Rightarrow>
             (let a = audit_as L claims ''alarm_shelve'' None (''Shelved alarm #'' @ show_int i @
                    '' for '' @ show_u32 (sh_duration_minutes req) @ '' min: '' @ sh_reason req) a
              in (api_ok (''Alarm #'' @ show_int i @ '' shelved for '' @
                    show_u32 (sh_duration_minutes req) @ '' minutes''), a))
         | (Inl e, a) \<Rightarrow> (api_err e, a)))"

section \<open>Batches\<close>

definition list_batches_route ::
    "batch_query_params \<Rightarrow> app_state \<Rightarrow> batch_record list api_response \<times> app_state" where
  "list_batches_route params a =
     (let (found, a) = on_db (list_batches params) a in (api_ok found, a))"

definition get_batch_route :: "string \<Rightarrow> app_state \<Rightarrow> json api_response \<times> app_state" where
  "get_batch_route batch_id a =
     (case on_db (get_batch_with_steps batch_id) a of
        (Some (record_, steps), a) \<Rightarrow>
          (api_ok (JObj [(''record'', batch_json record_), (''steps'', JArr (map step_json steps))]), a)
      | (None, a) \<Rightarrow> (api_err ''Batch not found'', a))"

section \<open>A register write is checked and recorded\<close>

text \<open>
  C8: a register is written only when it may be, and every write that succeeds is on record. The
  answer to a write request is a success exactly when the device is registered, the register is in
  its list of writable registers, its task is still there and the device accepted the write. Then
  the audit trail gains one entry with the user, the device and the register and value; otherwise
  the request itself records nothing, and a request that fails a check never reaches a device.
\<close>
theorem writes_checked_and_recorded:
  assumes "post_write L from_slice device (Some c) (Some bytes) a = (r, a')"
    and "from_slice bytes = Inr req" and "\<And>ch reg v s. healthy (app_db (snd (device ch reg v s)))"
  shows "if \<exists>h. reg_get (wr_device_id req) a = Some h \<and>
      wr_register req \<in> set (dc_writable (dh_config h)) \<and> \<not> is_finished a (dh_write_tx h)
    then \<exists>h answer b. reg_get (wr_device_id req) a = Some h \<and>
      device (dh_write_tx h) (wr_register req) (wr_value req) a = (answer, b) \<and>
      (success r \<longleftrightarrow> answer = Some (Inr ())) \<and>
      (if success r
       then (\<exists>e. rows (audit_trail (app_db a')) = rows (audit_trail (app_db b)) @ [e] \<and>
          ae_user_id e = cl_user_id c \<and> ae_username e = cl_sub c \<and>
          ae_action e = ''write_register'' \<and> ae_device_id e = Some (wr_device_id req) \<and>
          ae_details e = write_details L req)
       else a' = b)
    else \<not> success r \<and> a' = a"
proof (cases "\<exists>h. reg_get (wr_device_id req) a = Some h \<and>
      wr_register req \<in> set (dc_writable (dh_config h)) \<and> \<not> is_finished a (dh_write_tx h)")
  case False
  with assms(1,2) show ?thesis
    by (auto simp: post_write_def split: option.splits if_splits)
next
  case True
  then obtain h where h: "reg_get (wr_device_id req) a = Some h"
    "wr_register req \<in> set (dc_writable (dh_config h))" "\<not> is_finished a (dh_write_tx h)" by blast
  obtain answer b where d: "device (dh_write_tx h) (wr_register req) (wr_value req) a = (answer, b)"
    by fastforce
  have "healthy (app_db b)" using assms(3) d by (metis snd_conv)
  then show ?thesis
    using assms(1,2) h d by (cases answer)
      (auto simp: post_write_def audit_as_def log_audit_table audit_columns_def Let_def split: sum.splits)
qed

definition sample_write :: write_request where
  "sample_write = \<lparr>wr_device_id = ''plc-01'', wr_register = 1028, wr_value = 50\<rparr>"

theorem writes_checked_and_recorded_witness:
  "let a = reg_insert ''plc-01'' \<lparr>dh_write_tx = 0, dh_task = 0, dh_config = sample_device\<rparr> sample_app;
       a' = snd (post_write sample_libs (\<lambda>_. Inr sample_write) (\<lambda>_ _ _ s. (Some (Inr ()), s\<lparr>app_db := sample_world\<rparr>))
         (Some (sample_claims ''s1'')) (Some ''{}'') a)
   in length (rows (audit_trail (app_db a'))) = 1"
proof -
  let ?a = "reg_insert ''plc-01'' \<lparr>dh_write_tx = 0, dh_task = 0, dh_config = sample_device\<rparr> sample_app"
  let ?env = "(\<lambda>_ _ _ s. (Some (Inr ()), s\<lparr>app_db := sample_world\<rparr>)) :: device_env"
  obtain r a' where r: "post_write sample_libs (\<lambda>_. Inr sample_write) ?env (Some (sample_claims ''s1''))
      (Some ''{}'') ?a = (r, a')" by fastforce
  have "\<not> is_finished ?a 0" by (simp add: is_finished_def sample_app_def app_new_def)
  moreover have "(1028 :: u16) \<in> set (dc_writable sample_device)" by (simp add: sample_device_def)
  ultimately show ?thesis
    using writes_checked_and_recorded [OF r refl] unfolding r Let_def
    by (auto simp: sample_write_def empty_table_def split: if_splits)
qed

section \<open>What a shelf reports\<close>

text \<open>
  The answer and the audit entry of a shelve request give the requested minutes, not the real ones.
  Whatever number of minutes is asked for, the alarm is shelved for at most eight hours; the text
  that the user sees and the one in the audit trail name the number asked for.
\<close>
theorem shelve_reports_request:
  assumes "shelve_alarm_route L from_slice i (Some c) (Some bytes) a = (r, a')" and "success r"
    and "from_slice bytes = Inr req" and "healthy (app_db a)"
  shows "data r = Some (''Alarm #'' @ show_int i @ '' shelved for '' @
      show_u32 (sh_duration_minutes req) @ '' minutes'') \<and>
    (\<exists>x. alarm_with_id i (app_db a') = Some x \<and>
      al_shelved_until x = Some (to_rfc3339 L (now_of a + shelve_nanos (sh_duration_minutes req)))) \<and>
    shelve_nanos (sh_duration_minutes req) \<le> 8 * 3600 * 1000000000 \<and>
    (\<exists>e. rows (audit_trail (app_db a')) = rows (audit_trail (app_db a)) @ [e] \<and>
       ae_details e = ''Shelved alarm #'' @ show_int i @ '' for '' @
         show_u32 (sh_duration_minutes req) @ '' min: '' @ sh_reason req)"
proof -
  let ?w = "snd (shelve_alarm L i (cl_sub c) (sh_duration_minutes req) (sh_reason req) (app_db a))"
  have ok: "is_ok (fst (shelve_alarm L i (cl_sub c) (sh_duration_minutes req) (sh_reason req) (app_db a)))"
    and w: "app_db a' = log_audit L (cl_user_id c) (cl_sub c) ''alarm_shelve'' None
      (''Shelved alarm #'' @ show_int i @ '' for '' @ show_u32 (sh_duration_minutes req) @ '' min: '' @
        sh_reason req) None ?w"
    and d: "data r = Some (''Alarm #'' @ show_int i @ '' shelved for '' @
      show_u32 (sh_duration_minutes req) @ '' minutes'')"
    using assms(1-3) by (auto simp: shelve_alarm_route_def on_db_def audit_as_def username_of_def Let_def
        split: sum.splits prod.splits)
  obtain x where x: "alarm_with_id i (app_db a) = Some x"
    using ok by (auto simp: shelve_alarm_ok_iff)
  have "\<exists>x. alarm_with_id i ?w = Some x \<and>
      al_shelved_until x = Some (to_rfc3339 L (now_of a + shelve_nanos (sh_duration_minutes req)))"
    using ok x by (simp add: alarm_with_id_def shelve_alarm_table find_update_id del: tbl_update_simps)
  moreover have "alarm_with_id i (app_db a') = alarm_with_id i ?w"
    by (simp add: w alarm_with_id_def)
  moreover have "audit_trail ?w = audit_trail (app_db a)" "healthy ?w" using assms(4) by simp_all
  then have "\<exists>e. rows (audit_trail (app_db a')) = rows (audit_trail (app_db a)) @ [e] \<and>
       ae_details e = ''Shelved alarm #'' @ show_int i @ '' for '' @
         show_u32 (sh_duration_minutes req) @ '' min: '' @ sh_reason req"
    by (simp add: w log_audit_table audit_columns_def)
  ultimately show ?thesis using d shelve_nanos_max by simp
qed


definition sample_shelve :: shelve_request where
  "sample_shelve = \<lparr>sh_duration_minutes = 600, sh_reason = ''maintenance''\<rparr>"

theorem shelve_reports_request_witness:
  "data (fst (shelve_alarm_route sample_libs (\<lambda>_. Inr sample_shelve) 1 (Some (sample_claims ''s1''))
     (Some ''{}'') (sample_app\<lparr>app_db := sample_alarm_world\<rparr>))) = Some ''Alarm #1 shelved for 600 minutes''"
proof -
  let ?a = "sample_app\<lparr>app_db := sample_alarm_world\<rparr>"
  obtain r a' where r: "shelve_alarm_route sample_libs (\<lambda>_. Inr sample_shelve) 1
      (Some (sample_claims ''s1'')) (Some ''{}'') ?a = (r, a')" by fastforce
  have ok: "is_ok (fst (shelve_alarm sample_libs 1 u m x sample_alarm_world))" for u m x
    using sample_alarm_find sample_row_state by (simp add: shelve_alarm_ok_iff)
  have "fst (shelve_alarm sample_libs 1 u m x sample_alarm_world) = Inr ()" for u m x
    using ok [of u m x] by (cases "fst (shelve_alarm sample_libs 1 u m x sample_alarm_world)") auto
  then have "success r"
    using r by (auto simp: shelve_alarm_route_def on_db_def Let_def split_beta)
  moreover have "healthy (app_db ?a)" by simp
  moreover have "show_u32 600 = ''600''" "show_int 1 = ''1''" by code_simp+
  ultimately show ?thesis
    using shelve_reports_request [OF r _ refl] unfolding r by (simp add: sample_shelve_def)
qed

end
