(* ===== verification/Discovery.thy ===== *)
theory Discovery
  imports Registry
begin

text \<open>
  Finding devices: \<open>server/src/discovery.rs\<close> and its two handlers in \<open>routes.rs\<close>. The network is the
  parameter \<open>net\<close>: how the standard library reads a socket address, whether a TCP connection comes
  up within the half second of a probe, and what the OPC UA library answers to a request for the
  server list and to browsing. Probes run concurrently and their results are collected in order.
\<close>

section \<open>The network\<close>

record application =
  ap_name :: string
  ap_urls :: "string list option"

record reference =
  rf_node_id :: string
  rf_browse_name :: string
  rf_display_name :: string
  rf_node_class :: string

text \<open>
  \<open>'n\<close> is the library's type of node ids. \<open>nt_probe\<close> is \<open>None\<close> when the probe's task panics;
  \<open>nt_client\<close> says whether the library's builder gives a client, and \<open>nt_join\<close> is the error of a
  blocking task that dies.
\<close>
record 'n net =
  nt_socket_ip :: "string \<Rightarrow> string option"
  nt_probe :: "string \<Rightarrow> bool option"
  nt_client :: bool
  nt_join :: "string \<Rightarrow> string option"
  nt_find_servers :: "string \<Rightarrow> application list result"
  nt_parse_node :: "string \<Rightarrow> 'n option"
  nt_objects_folder :: 'n
  nt_connect :: "string \<Rightarrow> unit result"
  nt_browse :: "string \<Rightarrow> 'n \<Rightarrow> reference list option list option result"

record discovered_device =
  dd_address :: string
  dd_port :: u16
  dd_protocol :: string
  dd_reachable :: bool
  dd_server_name :: "string option"
  dd_endpoint_url :: "string option"

record opcua_node =
  on_node_id :: string
  on_browse_name :: string
  on_display_name :: string
  on_node_class :: string

section \<open>Scanning\<close>

definition is_opcua_port :: "u16 \<Rightarrow> bool" where
  "is_opcua_port port \<longleftrightarrow> 4840 \<le> port \<and> port \<le> 4850"

definition protocol_of_port :: "u16 \<Rightarrow> string" where
  "protocol_of_port port = (if is_opcua_port port then ''opcua'' else ''modbus'')"

definition probe_address :: "'n net \<Rightarrow> string \<Rightarrow> u16 \<Rightarrow> string \<Rightarrow> discovered_device option" where
  "probe_address net addr port protocol =
     (case nt_socket_ip net addr of
        None \<Rightarrow> None
      | Some ip \<Rightarrow>
          if nt_probe net addr = Some True
          then Some \<lparr>dd_address = ip, dd_port = port, dd_protocol = protocol, dd_reachable = True,
            dd_server_name = None, dd_endpoint_url = None\<rparr>
          else None)"

text \<open>A call of the library in a blocking task, with a new client.\<close>
definition spawn_blocking :: "'n net \<Rightarrow> string \<Rightarrow> 'a result \<Rightarrow> 'a result" where
  "spawn_blocking net url call =
     (case nt_join net url of
        Some e \<Rightarrow> Inl (''Spawn blocking: '' @ e)
      | None \<Rightarrow> if \<not> nt_client net then Inl ''Failed to build OPC UA client'' else call)"

definition find_opcua_servers :: "'n net \<Rightarrow> string \<Rightarrow> application list result" where
  "find_opcua_servers net url = spawn_blocking net url
     (case nt_find_servers net url of
        Inl e \<Rightarrow> Inl (''FindServers failed: '' @ e) | Inr servers \<Rightarrow> Inr servers)"

text \<open>The first of a server's discovery URLs.\<close>
definition first_url :: "application \<Rightarrow> string option" where
  "first_url s = (case ap_urls s of None \<Rightarrow> None
     | Some urls \<Rightarrow> (case urls of [] \<Rightarrow> None | u # _ \<Rightarrow> Some u))"

definition enrich :: "'n net \<Rightarrow> discovered_device \<Rightarrow> discovered_device list" where
  "enrich net dev =
     (if dd_protocol dev = ''opcua'' then
        (let url = ''opc.tcp://'' @ dd_address dev @ '':'' @ show_u16 (dd_port dev) in
         case find_opcua_servers net url of
           Inr servers \<Rightarrow>
             if servers \<noteq> []
             then map (\<lambda>s. \<lparr>dd_address = dd_address dev, dd_port = dd_port dev,
                 dd_protocol = ''opcua'', dd_reachable = True, dd_server_name = Some (ap_name s),
                 dd_endpoint_url = first_url s\<rparr>) servers
             else [dev]
         | _ \<Rightarrow> [dev])
      else [dev])"

definition scan_network :: "'n net \<Rightarrow> string list \<Rightarrow> u16 list \<Rightarrow> discovered_device list" where
  "scan_network net targets ports =
     (let found = concat (map (\<lambda>target. List.map_filter (\<lambda>port.
            probe_address net (target @ '':'' @ show_u16 port) port (protocol_of_port port)) ports)
          targets)
      in concat (map (enrich net) found))"

definition default_scan_targets :: "string list \<times> u16 list" where
  "default_scan_targets =
     ([''127.0.0.1''], [502, 5020, 5021, 5022, 5023, 5024, 5025, 4840, 4841, 4842])"

definition discover_devices ::
    "'n net \<Rightarrow> scan_request option \<Rightarrow> discovered_device list api_response" where
  "discover_devices net req =
     (let (default_targets, default_ports) = default_scan_targets;
          targets = (case Option.bind req sr_targets of None \<Rightarrow> default_targets | Some ts \<Rightarrow> ts);
          ports = (case Option.bind req sr_ports of None \<Rightarrow> default_ports | Some ps \<Rightarrow> ps)
      in api_ok (scan_network net targets ports))"

section \<open>Browsing\<close>

definition browse_opcua_nodes :: "'n net \<Rightarrow> string \<Rightarrow> string option \<Rightarrow> opcua_node list result" where
  "browse_opcua_nodes net url parent_node_id =
     (let parent = (case parent_node_id of None \<Rightarrow> ''ns=0;i=85'' | Some p \<Rightarrow> p);
          parent_node = (case nt_parse_node net parent of None \<Rightarrow> nt_objects_folder net | Some n \<Rightarrow> n)
      in spawn_blocking net url
          (case nt_connect net url of
             Inl e \<Rightarrow> Inl (''OPC UA connect failed: '' @ e)
           | Inr _ \<Rightarrow>
            (case nt_browse net url parent_node of
               Inl e \<Rightarrow> Inl (''Browse failed: '' @ e)
             | Inr results \<Rightarrow>
                 Inr (case results of
                     Some (Some refs # _) \<Rightarrow>
                       map (\<lambda>r. \<lparr>on_node_id = rf_node_id r, on_browse_name = rf_browse_name r,
                         on_display_name = rf_display_name r, on_node_class = rf_node_class r\<rparr>) refs
                   | _ \<Rightarrow> []))))"

definition browse_opcua ::
    "'n net \<Rightarrow> string \<Rightarrow> string option \<Rightarrow> opcua_node list api_response" where
  "browse_opcua net url parent_node_id =
     (case browse_opcua_nodes net url parent_node_id of
        Inr nodes \<Rightarrow> api_ok nodes | Inl e \<Rightarrow> api_err e)"

text \<open>A field that is left out when it is absent.\<close>
definition optional_field :: "string \<Rightarrow> string option \<Rightarrow> (string \<times> json) list" where
  "optional_field k v = (case v of None \<Rightarrow> [] | Some s \<Rightarrow> [(k, JStr s)])"

definition discovered_device_json :: "discovered_device \<Rightarrow> json" where
  "discovered_device_json d = JObj ([(''address'', JStr (dd_address d)),
     (''port'', JInt (uint (dd_port d))), (''protocol'', JStr (dd_protocol d)),
     (''reachable'', JBool (dd_reachable d))] @
     optional_field ''server_name'' (dd_server_name d) @
     optional_field ''endpoint_url'' (dd_endpoint_url d))"

definition opcua_node_json :: "opcua_node \<Rightarrow> json" where
  "opcua_node_json n = JObj [(''node_id'', JStr (on_node_id n)),
     (''browse_name'', JStr (on_browse_name n)), (''display_name'', JStr (on_display_name n)),
     (''node_class'', JStr (on_node_class n))]"

section \<open>A scan is exact\<close>

text \<open>A target and port of the scan that answers, with the address it answers at.\<close>
definition answers :: "'n net \<Rightarrow> string \<Rightarrow> u16 \<Rightarrow> string \<Rightarrow> bool" where
  "answers net target port ip \<longleftrightarrow> nt_socket_ip net (target @ '':'' @ show_u16 port) = Some ip \<and>
     nt_probe net (target @ '':'' @ show_u16 port) = Some True"

lemma probe_address_Some:
  "probe_address net (target @ '':'' @ show_u16 port) port p = Some d \<longleftrightarrow>
     (\<exists>ip. answers net target port ip \<and> d = \<lparr>dd_address = ip, dd_port = port, dd_protocol = p,
        dd_reachable = True, dd_server_name = None, dd_endpoint_url = None\<rparr>)"
  by (auto simp: probe_address_def answers_def split: option.splits)

lemma enrich_fields:
  assumes "e \<in> set (enrich net d)" and "dd_reachable d"
  shows "dd_address e = dd_address d \<and> dd_port e = dd_port d \<and> dd_protocol e = dd_protocol d \<and>
    dd_reachable e"
  using assms by (auto simp: enrich_def Let_def split: if_splits sum.splits)

lemma enrich_nonempty: "enrich net d \<noteq> []"
  by (auto simp: enrich_def Let_def split: sum.split)

text \<open>
  A scan reports what answers, and all of it. Every entry stands for a target and port of the scan
  that answered, at that address and port, with the protocol that the port's range implies; and
  every target and port that answered has an entry. An OPC UA server may contribute several, one
  per application it names.
\<close>
theorem scan_exact:
  "(\<forall>d. d \<in> set (scan_network net targets ports) \<longrightarrow>
      (\<exists>target port. target \<in> set targets \<and> port \<in> set ports \<and>
         answers net target port (dd_address d) \<and> dd_port d = port \<and> dd_reachable d \<and>
         dd_protocol d = protocol_of_port port)) \<and>
   (\<forall>target port ip. target \<in> set targets \<and> port \<in> set ports \<and> answers net target port ip \<longrightarrow>
      (\<exists>d \<in> set (scan_network net targets ports). dd_address d = ip \<and> dd_port d = port \<and>
         dd_protocol d = protocol_of_port port))"
proof (intro conjI allI impI)
  fix e assume "e \<in> set (scan_network net targets ports)"
  then obtain target port d where t: "target \<in> set targets" "port \<in> set ports"
    and d: "probe_address net (target @ '':'' @ show_u16 port) port (protocol_of_port port) = Some d"
    and e: "e \<in> set (enrich net d)"
    by (auto simp: scan_network_def map_filter_def)
  from d enrich_fields [OF e] t show "\<exists>target port. target \<in> set targets \<and> port \<in> set ports \<and>
      answers net target port (dd_address e) \<and> dd_port e = port \<and> dd_reachable e \<and>
      dd_protocol e = protocol_of_port port"
    unfolding probe_address_Some by auto
next
  fix target port ip
  assume a: "target \<in> set targets \<and> port \<in> set ports \<and> answers net target port ip"
  let ?d = "\<lparr>dd_address = ip, dd_port = port, dd_protocol = protocol_of_port port,
    dd_reachable = True, dd_server_name = None, dd_endpoint_url = None\<rparr>"
  have p: "probe_address net (target @ '':'' @ show_u16 port) port (protocol_of_port port) = Some ?d"
    using a unfolding probe_address_Some by blast
  obtain e where e: "e \<in> set (enrich net ?d)"
    using enrich_nonempty by (metis list.set_sel(1))
  have "?d \<in> set (List.map_filter (\<lambda>port. probe_address net (target @ '':'' @ show_u16 port) port
      (protocol_of_port port)) ports)"
    using a p by (force simp: map_filter_def)
  then have "e \<in> set (scan_network net targets ports)"
    using a e by (force simp: scan_network_def)
  with enrich_fields [OF e] show "\<exists>d \<in> set (scan_network net targets ports). dd_address d = ip \<and>
      dd_port d = port \<and> dd_protocol d = protocol_of_port port" by auto
qed

definition sample_net_scan :: "unit net" where
  "sample_net_scan = \<lparr>nt_socket_ip = (\<lambda>a. Some (split_first (CHR '':'') a)),
     nt_probe = (\<lambda>a. Some (a = ''10.0.0.7:502'')), nt_client = True,
     nt_join = (\<lambda>_. None), nt_find_servers = (\<lambda>_. Inr []), nt_parse_node = (\<lambda>_. None),
     nt_objects_folder = (), nt_connect = (\<lambda>_. Inr ()), nt_browse = (\<lambda>_ _. Inr None)\<rparr>"

theorem scan_exact_witness:
  "\<exists>d \<in> set (scan_network sample_net_scan [''10.0.0.7''] [502, 4840]).
     dd_address d = ''10.0.0.7'' \<and> dd_port d = 502 \<and> dd_protocol d = ''modbus''"
proof -
  have "show_u16 502 = ''502''" by code_simp
  then have "answers sample_net_scan ''10.0.0.7'' 502 ''10.0.0.7''"
    by (simp add: answers_def sample_net_scan_def split_first_def)
  moreover have "protocol_of_port 502 = ''modbus''"
    by (simp add: protocol_of_port_def is_opcua_port_def)
  ultimately show ?thesis
    using scan_exact [of sample_net_scan "[''10.0.0.7'']" "[502, 4840]"] by fastforce
qed

end
