(* ===== verification/Export.thy ===== *)
theory Export
  imports Auth
begin

text \<open>
  The CSV reports: \<open>server/src/export.rs\<close>. The writer of the csv library is the parameter \<open>csv\<close>: a new
  writer, one more record, and the bytes at the end. \<open>Display\<close> of a number is written out for integral values; the digits it prints
  for others are the parameter \<open>digits\<close>. A report is the response: its file name and its bytes.
\<close>

section \<open>Cells\<close>

text \<open>\<open>x.to_string()\<close> of an \<open>f64\<close>: no decimal point for an integral value.\<close>
definition show_f64 :: "(f64 \<Rightarrow> string) \<Rightarrow> f64 \<Rightarrow> string" where
  "show_f64 digits x = (if of_int \<lfloor>x\<rfloor> = x then show_int \<lfloor>x\<rfloor> else digits x)"

text \<open>\<open>format!("{:?}", x)\<close> of the enums.\<close>
fun debug_priority :: "AlarmPriority \<Rightarrow> string" where
  "debug_priority Critical = ''Critical''"
| "debug_priority High = ''High''"
| "debug_priority Medium = ''Medium''"
| "debug_priority Low = ''Low''"
| "debug_priority Info = ''Info''"

fun debug_alarm_state :: "AlarmState \<Rightarrow> string" where
  "debug_alarm_state Active = ''Active''"
| "debug_alarm_state Acknowledged = ''Acknowledged''"
| "debug_alarm_state Cleared = ''Cleared''"
| "debug_alarm_state Shelved = ''Shelved''"

fun debug_batch_status :: "BatchStatus \<Rightarrow> string" where
  "debug_batch_status Running = ''Running''"
| "debug_batch_status Completed = ''Completed''"
| "debug_batch_status Aborted = ''Aborted''"
| "debug_batch_status Held = ''Held''"

definition or_empty :: "string option \<Rightarrow> string" where
  "or_empty x = (case x of None \<Rightarrow> '''' | Some s \<Rightarrow> s)"

section \<open>Records\<close>

text \<open>
  \<open>csv::Writer\<close> over a byte vector. The code drops the outcome of \<open>write_record\<close>, so writing is a
  function of the writer alone; \<open>into_inner().unwrap_or_default()\<close> gives the bytes.
\<close>
record 'w csv =
  csv_new :: 'w
  csv_write :: "string list \<Rightarrow> 'w \<Rightarrow> 'w"
  csv_bytes :: "'w \<Rightarrow> string"

definition alarm_header :: "string list" where
  "alarm_header = [''id'', ''device_id'', ''register'', ''label'', ''priority'', ''state'', ''value'',
     ''threshold'', ''message'', ''timestamp'', ''acked_by'', ''acked_at'', ''shelved_by'',
     ''shelved_until'', ''cleared_at'']"

definition alarm_record :: "(f64 \<Rightarrow> string) \<Rightarrow> alarm \<Rightarrow> string list" where
  "alarm_record digits a = [show_int (a_id a), a_device_id a, show_u16 (a_register a), a_label a,
     debug_priority (a_priority a), debug_alarm_state (a_state a), show_f64 digits (a_value a),
     show_f64 digits (a_threshold a), a_message a, a_timestamp a, or_empty (a_acked_by a),
     or_empty (a_acked_at a), or_empty (a_shelved_by a), or_empty (a_shelved_until a),
     or_empty (a_cleared_at a)]"

definition batch_header :: "string list" where
  "batch_header = [''id'', ''batch_id'', ''recipe_name'', ''device_id'', ''operator'', ''status'',
     ''start_time'', ''end_time'', ''notes'']"

definition batch_csv :: "batch_record \<Rightarrow> string list" where
  "batch_csv b = [show_int (b_id b), b_batch_id b, b_recipe_name b, b_device_id b, b_operator b,
     debug_batch_status (b_status b), b_start_time b, or_empty (b_end_time b), or_empty (b_notes b)]"

definition audit_header :: "string list" where
  "audit_header = [''id'', ''user_id'', ''username'', ''action'', ''device_id'', ''details'',
     ''timestamp'', ''ip_address'']"

definition audit_csv :: "audit_entry \<Rightarrow> string list" where
  "audit_csv e = [show_int (ae_id e), ae_user_id e, ae_username e, ae_action e,
     or_empty (ae_device_id e), ae_details e, ae_timestamp e, or_empty (ae_ip_address e)]"

definition history_header :: "string list" where
  "history_header = [''device_id'', ''register'', ''value'', ''timestamp'']"

definition history_csv :: "libs \<Rightarrow> (f64 \<Rightarrow> string) \<Rightarrow> plc_data \<Rightarrow> string list" where
  "history_csv L digits d = [pd_device_id d, show_u16 (pd_register d), show_f64 digits (pd_value d),
     to_rfc3339 L (pd_timestamp d)]"

section \<open>Reports\<close>

text \<open>
  \<open>csv_response\<close>: the file name as the disposition header gives it, with the fallback for a text
  that is not a header value, and the bytes.
\<close>
record report =
  rp_disposition :: string
  rp_bytes :: string

definition csv_response :: "string \<Rightarrow> string \<Rightarrow> report" where
  "csv_response bytes filename =
     (let text = ''attachment; filename='' @ [CHR 0x22] @ filename @ [CHR 0x22] in
      \<lparr>rp_disposition = (case to_str text of Some v \<Rightarrow> v
         | None \<Rightarrow> ''attachment; filename='' @ [CHR 0x22] @ ''export.csv'' @ [CHR 0x22]),
       rp_bytes = bytes\<rparr>)"

text \<open>The header, then a record for each row, and the bytes.\<close>
definition csv_table :: "'w csv \<Rightarrow> string list \<Rightarrow> ('a \<Rightarrow> string list) \<Rightarrow> 'a list \<Rightarrow> string" where
  "csv_table csv header f xs =
     csv_bytes csv (fold (\<lambda>x. csv_write csv (f x)) xs (csv_write csv header (csv_new csv)))"

definition export_alarms_csv ::
    "'w csv \<Rightarrow> (f64 \<Rightarrow> string) \<Rightarrow> alarm_query_params \<Rightarrow> app_state \<Rightarrow>
     report \<times> app_state" where
  "export_alarms_csv csv digits params a =
     (let (found, a) = on_db (list_alarms params) a in
      (csv_response (csv_table csv alarm_header (alarm_record digits) found) ''alarms_export.csv'', a))"

definition export_batches_csv ::
    "'w csv \<Rightarrow> batch_query_params \<Rightarrow> app_state \<Rightarrow> report \<times> app_state" where
  "export_batches_csv csv params a =
     (let (found, a) = on_db (list_batches params) a in
      (csv_response (csv_table csv batch_header batch_csv found) ''batches_export.csv'', a))"

text \<open>The parameters are those of the audit query; only the limit is used.\<close>
definition export_audit_rows :: "audit_query_params \<Rightarrow> world \<Rightarrow> audit_entry list \<times> world" where
  "export_audit_rows params w =
     (let limit = (case uq_limit params of None \<Rightarrow> 1000 | Some n \<Rightarrow> n); (e, w) = sql w in
      (case e of Some _ \<Rightarrow> []
       | None \<Rightarrow> sql_limit limit (order_desc ae_id (rows (audit_trail w))), w))"

definition export_audit_csv ::
    "'w csv \<Rightarrow> audit_query_params \<Rightarrow> app_state \<Rightarrow> report \<times> app_state" where
  "export_audit_csv csv params a =
     (let (found, a) = on_db (export_audit_rows params) a in
      (csv_response (csv_table csv audit_header audit_csv found) ''audit_export.csv'', a))"

definition export_history_csv ::
    "libs \<Rightarrow> 'w csv \<Rightarrow> (f64 \<Rightarrow> string) \<Rightarrow> string \<Rightarrow> int option \<Rightarrow>
     app_state \<Rightarrow> report \<times> app_state" where
  "export_history_csv L csv digits dev limit a =
     (let limit = (case limit of None \<Rightarrow> 5000 | Some n \<Rightarrow> n);
          (history, a) = on_db (get_history L dev limit) a in
      (csv_response (csv_table csv history_header (history_csv L digits) history)
         (dev @ ''_history.csv''), a))"

section \<open>No record is lost\<close>

text \<open>
  What the code relies on in the csv library: a reader gets back the records of a file, where all
  have the length of the first.
\<close>
definition csv_reads :: "'w csv \<Rightarrow> (string \<Rightarrow> string list list) \<Rightarrow> bool" where
  "csv_reads csv from_csv \<longleftrightarrow>
     (\<forall>header rs. header \<noteq> [] \<and> (\<forall>r \<in> set rs. length r = length header) \<longrightarrow>
        from_csv (csv_bytes csv (fold (csv_write csv) (header # rs) (csv_new csv))) = header # rs)"

lemma record_lengths [simp]:
  "length (alarm_record digits a) = length alarm_header" "length (batch_csv b) = length batch_header"
  "length (audit_csv e) = length audit_header" "length (history_csv L digits d) = length history_header"
  by (simp_all add: alarm_record_def alarm_header_def batch_csv_def batch_header_def audit_csv_def
      audit_header_def history_csv_def history_header_def)

lemma headers_nonempty [simp]:
  "alarm_header \<noteq> []" "batch_header \<noteq> []" "audit_header \<noteq> []" "history_header \<noteq> []"
  by (simp_all add: alarm_header_def batch_header_def audit_header_def history_header_def)

lemma read_table:
  assumes "csv_reads csv from_csv" and "\<And>x. length (f x) = length header" and "header \<noteq> []"
  shows "from_csv (csv_table csv header f xs) = header # map f xs"
proof -
  have "from_csv (csv_bytes csv (fold (csv_write csv) (header # map f xs) (csv_new csv))) = header # map f xs"
    using assms by (auto simp: csv_reads_def simp del: fold.simps)
  then show ?thesis by (simp add: csv_table_def fold_map comp_def)
qed

lemmas read_reports = read_table [OF _ record_lengths(1) headers_nonempty(1)]
  read_table [OF _ record_lengths(2) headers_nonempty(2)]
  read_table [OF _ record_lengths(3) headers_nonempty(3)]
  read_table [OF _ record_lengths(4) headers_nonempty(4)]

text \<open>
  C35: a report holds every record the query found. Reading the bytes of an alarm, batch or history
  report back gives the header and then one record for each row of the corresponding list, in its
  order, cell by cell: the library's refusal of records of another length never drops one.
\<close>
theorem reports_complete:
  assumes "csv_reads csv from_csv"
  shows "from_csv (rp_bytes (fst (export_alarms_csv csv digits p a))) =
      alarm_header # map (alarm_record digits) (fst (list_alarms p (app_db a))) \<and>
    from_csv (rp_bytes (fst (export_batches_csv csv q a))) =
      batch_header # map batch_csv (fst (list_batches q (app_db a))) \<and>
    from_csv (rp_bytes (fst (export_history_csv L csv digits dev n a))) = history_header #
      map (history_csv L digits)
        (fst (get_history L dev (case n of None \<Rightarrow> 5000 | Some k \<Rightarrow> k) (app_db a)))"
  by (simp add: read_reports [OF assms] export_alarms_csv_def export_batches_csv_def export_history_csv_def on_db_def
      csv_response_def Let_def split_beta)

text \<open>A writer that drops records of another length and prefixes each cell and starts each record with a mark.\<close>
definition sample_csv_text :: "string list list \<Rightarrow> string" where
  "sample_csv_text t = concat (map (\<lambda>r. CHR ''r'' # concat (map put_field r)) t)"

fun sample_cells :: "nat \<Rightarrow> string \<Rightarrow> string list \<times> string" where
  "sample_cells 0 s = ([], s)"
| "sample_cells (Suc n) s =
     (if s = [] \<or> hd s = CHR ''r'' then ([], s)
      else let (c, s) = get_field s; (cs, s) = sample_cells n s in (c # cs, s))"

fun sample_records :: "nat \<Rightarrow> string \<Rightarrow> string list list" where
  "sample_records 0 s = []"
| "sample_records (Suc n) s =
     (if s = [] then []
      else let (r, s) = sample_cells (length s) (tl s) in r # sample_records n s)"

lemma put_field_hd: "put_field c @ s \<noteq> [] \<and> hd (put_field c @ s) \<noteq> CHR ''r''"
  by (cases "length c") (simp_all add: put_field_def)

lemma put_field_length: "1 \<le> length (put_field c)"
  by (simp add: put_field_def)

lemma sample_cells_written:
  assumes "length r \<le> n" and "s = [] \<or> hd s = CHR ''r''"
  shows "sample_cells n (concat (map put_field r) @ s) = (r, s)"
  using assms
proof (induction r arbitrary: n)
  case Nil
  then show ?case by (cases n) simp_all
next
  case (Cons c r)
  then obtain m where "n = Suc m" "length r \<le> m" by (cases n) auto
  then show ?case
    using Cons put_field_hd [of c "concat (map put_field r) @ s"] by simp
qed

lemma length_fields: "length r \<le> length (concat (map put_field r))"
proof (induction r)
  case (Cons c r)
  then show ?case using put_field_length [of c] by simp
qed simp

lemma sample_records_written: "length t \<le> n \<Longrightarrow> sample_records n (sample_csv_text t) = t"
proof (induction t arbitrary: n)
  case (Cons r t)
  then obtain m where m: "n = Suc m" "length t \<le> m" by (cases n) auto
  have "sample_csv_text t = [] \<or> hd (sample_csv_text t) = CHR ''r''"
    by (cases t) (simp_all add: sample_csv_text_def)
  then have "sample_cells (length (CHR ''r'' # concat (map put_field r) @ sample_csv_text t))
      (concat (map put_field r) @ sample_csv_text t) = (r, sample_csv_text t)"
    using length_fields [of r] by (intro sample_cells_written) simp_all
  then show ?case using Cons.IH [OF m(2)] m(1) by (simp add: sample_csv_text_def)
next
  case Nil
  then show ?case by (cases n) (simp_all add: sample_csv_text_def)
qed

lemma length_sample_csv: "length t \<le> length (sample_csv_text t)"
  by (induction t) (simp_all add: sample_csv_text_def)

definition sample_csv :: "string list list csv" where
  "sample_csv = \<lparr>csv_new = [],
     csv_write = (\<lambda>r t. if t = [] \<or> length r = length (hd t) then t @ [r] else t),
     csv_bytes = sample_csv_text\<rparr>"

lemma sample_csv_reads: "csv_reads sample_csv (\<lambda>s. sample_records (length s) s)"
  unfolding csv_reads_def
proof (intro allI impI)
  fix header :: "string list" and rs :: "string list list"
  assume a: "header \<noteq> [] \<and> (\<forall>r \<in> set rs. length r = length header)"
  then have "t \<noteq> [] \<Longrightarrow> hd t = header \<Longrightarrow> fold (csv_write sample_csv) rs t = t @ rs" for t
    by (induction rs arbitrary: t) (simp_all add: sample_csv_def)
  from this [of "[header]"]
  have "fold (csv_write sample_csv) (header # rs) (csv_new sample_csv) = header # rs"
    by (simp add: sample_csv_def)
  then show "sample_records (length (csv_bytes sample_csv (fold (csv_write sample_csv) (header # rs)
        (csv_new sample_csv)))) (csv_bytes sample_csv (fold (csv_write sample_csv) (header # rs)
        (csv_new sample_csv))) = header # rs"
    using sample_records_written [OF length_sample_csv, of "header # rs"] by (simp add: sample_csv_def)
qed

theorem reports_complete_witness:
  "let a = sample_app\<lparr>app_db := sample_alarm_world\<rparr>;
       b = rp_bytes (fst (export_alarms_csv sample_csv (\<lambda>_. ''?'') \<lparr>aq_device_id = None, aq_state = None,
         aq_priority = None, aq_limit = None\<rparr> a))
   in sample_records (length b) b =
     [alarm_header, alarm_record (\<lambda>_. ''?'') (alarm_of_row sample_row)]"
proof -
  let ?p = "\<lparr>aq_device_id = None, aq_state = None, aq_priority = None, aq_limit = None\<rparr>"
  have "fst (list_alarms ?p sample_alarm_world) = [alarm_of_row sample_row]"
    by (simp add: list_alarms_def env_defs Let_def list_alarms_where_def sample_alarm_table
        sql_limit_def order_desc_def)
  then show ?thesis
    using reports_complete [OF sample_csv_reads, where p = ?p and digits = "\<lambda>_. ''?''"
        and a = "sample_app\<lparr>app_db := sample_alarm_world\<rparr>"]
    by (simp add: Let_def)
qed

text \<open>
  The audit report is the newest part of the whole trail, whatever was asked for. Its records are the
  newest entries, at most the limit (1000 when none is given); the user, device and action that the
  request names are not used.
\<close>
theorem audit_report_ignores_filters:
  assumes "csv_reads csv from_csv" and "healthy (app_db a)" and "tbl_ok ae_id (audit_trail (app_db a))"
  shows "from_csv (rp_bytes (fst (export_audit_csv csv p a))) = audit_header # map audit_csv
    (sql_limit (case uq_limit p of None \<Rightarrow> 1000 | Some n \<Rightarrow> n) (rev (rows (audit_trail (app_db a)))))"
proof -
  have "order_desc ae_id (rows (audit_trail (app_db a))) = rev (rows (audit_trail (app_db a)))"
    using order_desc_rows [OF assms(3), of "\<lambda>_. True"] by simp
  then show ?thesis
    using assms(2)
    by (simp add: read_reports [OF assms(1)] export_audit_csv_def export_audit_rows_def on_db_def csv_response_def Let_def env_defs)
qed

theorem audit_report_ignores_filters_witness:
  "(let b = rp_bytes (fst (export_audit_csv sample_csv \<lparr>uq_user_id = Some ''u1'', uq_device_id = None,
      uq_action = None, uq_limit = None\<rparr> sample_app)) in sample_records (length b) b = [audit_header])"
proof -
  have "healthy (app_db sample_app)" "tbl_ok ae_id (audit_trail (app_db sample_app))"
    "rows (audit_trail (app_db sample_app)) = []"
    by (simp_all add: sample_app_def app_new_def) (simp add: empty_table_def)
  then show ?thesis
    using audit_report_ignores_filters [OF sample_csv_reads, of sample_app]
    by (simp add: sql_limit_def Let_def)
qed

end
