(* ===== verification/Ws.thy ===== *)
theory Ws
  imports Auth
begin

text \<open>
  The live feed: \<open>server/src/ws.rs\<close>. A connection waits for a first text message with a token, and
  then forwards what the polling tasks broadcast. \<open>ws_step\<close> is what the connection's task does with
  one input: a message or the end of the incoming stream, the ten-second timer, or something from
  the broadcast channel. The sessions and the clock that a token is checked against are those of the
  shared state at that moment.
\<close>

section \<open>The connection\<close>

datatype ws_message = Text string | CloseFrame | OtherFrame

text \<open>
  \<open>Broadcast m ok\<close>: a message from the channel, and whether sending it on succeeds. \<open>TimedOut\<close> is
  the end of a wait of ten seconds.
\<close>
datatype ws_input =
    Received ws_message | ReceiveError | StreamEnd | TimedOut
  | Broadcast string bool | Lagged | BusClosed

datatype ws_phase = Waiting | Open claims | Shut

record ws =
  ws_phase :: ws_phase
  ws_sent :: "string list"

definition ws_start :: ws where
  "ws_start = \<lparr>ws_phase = Waiting, ws_sent = []\<rparr>"

definition dq :: "string \<Rightarrow> string" where
  "dq s = [CHR 0x22] @ s @ [CHR 0x22]"

definition auth_ok_text :: string where
  "auth_ok_text = ''{'' @ dq ''auth'' @ '':'' @ dq ''ok'' @ ''}''"

definition revoked_text :: string where
  "revoked_text = ''{'' @ dq ''error'' @ '':'' @ dq ''session_revoked'' @ ''}''"

definition timeout_text :: string where
  "timeout_text = ''{'' @ dq ''error'' @ '':'' @ dq ''auth_timeout'' @ ''}''"

definition failed_text :: "string \<Rightarrow> string" where
  "failed_text e = ''{'' @ dq ''error'' @ '':'' @ dq ''auth_failed'' @ '','' @ dq ''detail'' @ '':'' @
     dq e @ ''}''"

text \<open>Send one last text and leave.\<close>
abbreviation farewell :: "string \<Rightarrow> ws \<Rightarrow> ws" where
  "farewell m s \<equiv> s\<lparr>ws_phase := Shut, ws_sent := ws_sent s @ [m]\<rparr>"

definition on_token :: "libs \<Rightarrow> string \<Rightarrow> ws \<Rightarrow> app_state \<Rightarrow> ws \<times> app_state" where
  "on_token L txt s a =
     (let token = trim txt in
      case on_db (validate_token L token (jwt_secret a)) a of
        (Inr c, a) \<Rightarrow>
          (case session_live c a of
             (False, a) \<Rightarrow> (farewell revoked_text s, a)
           | (True, a) \<Rightarrow> (s\<lparr>ws_phase := Open c, ws_sent := ws_sent s @ [auth_ok_text]\<rparr>, a))
      | (Inl e, a) \<Rightarrow> (farewell (failed_text e) s, a))"

text \<open>The loop of the first step: what one result of the timed wait leads to.\<close>
definition wait_step :: "libs \<Rightarrow> ws_input \<Rightarrow> ws \<Rightarrow> app_state \<Rightarrow> ws \<times> app_state" where
  "wait_step L i s a =
     (case i of
        Received (Text txt) \<Rightarrow> on_token L txt s a
      | Received CloseFrame \<Rightarrow> (s\<lparr>ws_phase := Shut\<rparr>, a)
      | StreamEnd \<Rightarrow> (s\<lparr>ws_phase := Shut\<rparr>, a)
      | TimedOut \<Rightarrow> (farewell timeout_text s, a)
      | _ \<Rightarrow> (s, a))"

text \<open>The two tasks of the second step, either of which ends the connection.\<close>
definition feed_step :: "ws_input \<Rightarrow> ws \<Rightarrow> ws" where
  "feed_step i s =
     (case i of
        Broadcast m ok \<Rightarrow> if ok then s\<lparr>ws_sent := ws_sent s @ [m]\<rparr> else s\<lparr>ws_phase := Shut\<rparr>
      | Lagged \<Rightarrow> s
      | BusClosed \<Rightarrow> s\<lparr>ws_phase := Shut\<rparr>
      | Received (Text txt) \<Rightarrow> s
      | Received CloseFrame \<Rightarrow> s\<lparr>ws_phase := Shut\<rparr>
      | Received OtherFrame \<Rightarrow> s
      | ReceiveError \<Rightarrow> s\<lparr>ws_phase := Shut\<rparr>
      | StreamEnd \<Rightarrow> s\<lparr>ws_phase := Shut\<rparr>
      | TimedOut \<Rightarrow> s)"

definition ws_step :: "libs \<Rightarrow> ws_input \<Rightarrow> ws \<Rightarrow> app_state \<Rightarrow> ws \<times> app_state" where
  "ws_step L i s a =
     (case ws_phase s of
        Waiting \<Rightarrow> wait_step L i s a
      | Open c \<Rightarrow> (feed_step i s, a)
      | Shut \<Rightarrow> (s, a))"

text \<open>A connection's inputs, each with the shared state that it finds.\<close>
fun ws_run :: "libs \<Rightarrow> (ws_input \<times> app_state) list \<Rightarrow> ws \<Rightarrow> ws" where
  "ws_run L [] s = s"
| "ws_run L ((i, a) # xs) s = ws_run L xs (fst (ws_step L i s a))"

section \<open>Only a valid token opens the feed\<close>

text \<open>The inputs that leave a waiting connection waiting.\<close>
definition skipped :: "ws_input \<Rightarrow> bool" where
  "skipped i \<longleftrightarrow> i \<noteq> StreamEnd \<and> i \<noteq> TimedOut \<and> i \<noteq> Received CloseFrame \<and>
     (\<forall>t. i \<noteq> Received (Text t))"

text \<open>What a token must be, at the state it meets.\<close>
definition token_accepted :: "libs \<Rightarrow> string \<Rightarrow> app_state \<Rightarrow> claims \<Rightarrow> bool" where
  "token_accepted L txt a c \<longleftrightarrow>
     jwt_decode L (trim txt) (jwt_secret a) (now_of a) = Inr c \<and> session_ok c (tick_clock a)"

lemma ws_run_append: "ws_run L (xs @ ys) s = ws_run L ys (ws_run L xs s)"
  by (induction L xs s rule: ws_run.induct) simp_all

lemma ws_run_shut: "ws_phase s = Shut \<Longrightarrow> ws_run L xs s = s"
  by (induction L xs s rule: ws_run.induct) (simp_all add: ws_step_def)

lemma ws_run_skipped:
  "ws_phase s = Waiting \<Longrightarrow> \<forall>x \<in> set xs. skipped (fst x) \<Longrightarrow> ws_run L xs s = s"
proof (induction L xs s rule: ws_run.induct)
  case (2 L i a xs s)
  then have "ws_step L i s a = (s, a)"
    by (auto simp: ws_step_def wait_step_def skipped_def split: ws_input.splits ws_message.splits)
  with 2 show ?case by simp
qed simp

lemma on_token_eq:
  "fst (on_token L txt s a) =
     (case jwt_decode L (trim txt) (jwt_secret a) (now_of a) of
        Inl e \<Rightarrow> farewell (failed_text (''Invalid token: '' @ e)) s
      | Inr c \<Rightarrow> if session_ok c (tick_clock a)
          then s\<lparr>ws_phase := Open c, ws_sent := ws_sent s @ [auth_ok_text]\<rparr>
          else farewell revoked_text s)"
  by (simp add: on_token_def Let_def validate_token_eq session_live_eq split: sum.split)

text \<open>
  C30: the feed opens for a valid token only, and the first text decides. As long as nothing but pings,
  binary frames and errors arrive, nothing is sent. The first text message then settles it: with a
  token that is valid under the server's secret and whose session is registered and not expired, the
  connection confirms and forwards broadcasts; with any other text it sends one error and is closed
  for good, whatever follows.
\<close>
theorem ws_first_text_decides:
  assumes "\<forall>x \<in> set before. skipped (fst x)"
  shows "ws_run L before ws_start = ws_start \<and>
    (if \<exists>c. token_accepted L txt a c
     then \<exists>c. token_accepted L txt a c \<and>
       ws_run L (before @ (Received (Text txt), a) # rest) ws_start =
         ws_run L rest \<lparr>ws_phase = Open c, ws_sent = [auth_ok_text]\<rparr>
     else \<exists>m. ws_run L (before @ (Received (Text txt), a) # rest) ws_start =
       \<lparr>ws_phase = Shut, ws_sent = [m]\<rparr>)"
proof -
  have w: "ws_run L before ws_start = ws_start"
    using ws_run_skipped [of ws_start before L] assms by (simp add: ws_start_def)
  then have run: "ws_run L (before @ (Received (Text txt), a) # rest) ws_start =
      ws_run L rest (fst (on_token L txt ws_start a))"
    by (simp add: ws_run_append ws_step_def wait_step_def ws_start_def)
  show ?thesis
    unfolding run using w
    by (auto simp: on_token_eq token_accepted_def ws_start_def ws_run_shut split: sum.split)
qed

lemma drop_seqs_none: "\<forall>w \<in> set ws. w \<noteq> [] \<and> hd w \<noteq> c \<Longrightarrow> drop_seqs n ws (c # s) = c # s"
proof (cases n)
  case (Suc m)
  assume "\<forall>w \<in> set ws. w \<noteq> [] \<and> hd w \<noteq> c"
  then have "find (\<lambda>w. take (length w) (c # s) = w) ws = None"
    by (auto simp: find_None_iff take_Cons' split: if_splits) (metis hd_Cons_tl list.sel(1))
  with Suc show ?thesis by simp
qed simp

lemma trim_id:
  assumes "s \<noteq> []" and "\<forall>w \<in> set white_space. hd w \<noteq> hd s \<and> last w \<noteq> last s"
  shows "trim s = s"
proof -
  have ne: "\<forall>w \<in> set white_space. w \<noteq> []" by (simp add: white_space_def)
  have "drop_seqs (length s) white_space s = s"
    using assms ne drop_seqs_none [of white_space "hd s" _ "tl s"] by auto
  moreover have "drop_seqs (length s) (map rev white_space) (rev s) = rev s"
    using assms ne drop_seqs_none [of "map rev white_space" "last s" _ "rev (butlast s)"]
    by (cases s rule: rev_cases) (auto simp: hd_rev)
  ultimately show ?thesis by (simp add: trim_def Let_def)
qed

lemma trim_sample_token: "trim (sample_token ''operator'') = sample_token ''operator''"
proof (rule trim_id)
  have t: "sample_token ''operator'' = put_field default_jwt_secret @ put_field ''eve'' @
      put_field ''operator'' @ put_field ''u1'' @ put_field (show_nat 28800) @
      put_field (show_nat 0) @ ''ss1''"
    by (simp add: sample_token_def sample_encode_def sample_claims_def)
  have "hd (sample_token ''operator'') = CHR ''1''"
    unfolding t put_field_def default_jwt_secret_def by simp
  moreover have "last (sample_token ''operator'') = CHR ''1''"
    unfolding t by (simp add: put_field_def)
  ultimately show "\<forall>w \<in> set white_space. hd w \<noteq> hd (sample_token ''operator'') \<and>
      last w \<noteq> last (sample_token ''operator'')"
    by (simp add: white_space_def)
  show "sample_token ''operator'' \<noteq> []" unfolding t by (simp add: put_field_def)
qed

lemma sample_token_accepted:
  "token_accepted sample_libs (sample_token ''operator'') sample_session_app (sample_claims ''operator'')"
  by (simp add: token_accepted_def trim_sample_token sample_decode_token session_ok_def
      sample_claims_def timestamp_def)

theorem ws_first_text_decides_witness:
  "ws_run sample_libs [(Received OtherFrame, sample_app),
     (Received (Text (sample_token ''operator'')), sample_session_app),
     (Broadcast ''reading'' True, sample_app)] ws_start =
   \<lparr>ws_phase = Open (sample_claims ''operator''), ws_sent = [auth_ok_text, ''reading'']\<rparr>"
proof -
  have "\<forall>x \<in> set [(Received OtherFrame, sample_app)]. skipped (fst x)" by (simp add: skipped_def)
  from ws_first_text_decides [OF this, of sample_libs "sample_token ''operator''" sample_session_app
      "[(Broadcast ''reading'' True, sample_app)]"] sample_token_accepted
  obtain c where "token_accepted sample_libs (sample_token ''operator'') sample_session_app c"
    and run: "ws_run sample_libs ([(Received OtherFrame, sample_app)] @
        (Received (Text (sample_token ''operator'')), sample_session_app) #
        [(Broadcast ''reading'' True, sample_app)]) ws_start =
      ws_run sample_libs [(Broadcast ''reading'' True, sample_app)]
        \<lparr>ws_phase = Open c, ws_sent = [auth_ok_text]\<rparr>"
    by (auto split: if_splits simp del: ws_run.simps append.simps)
  then have "c = sample_claims ''operator''"
    using sample_token_accepted by (simp add: token_accepted_def)
  moreover have "ws_run sample_libs [(Broadcast ''reading'' True, sample_app)]
      \<lparr>ws_phase = Open c, ws_sent = [auth_ok_text]\<rparr> =
    \<lparr>ws_phase = Open c, ws_sent = [auth_ok_text, ''reading'']\<rparr>"
    by (simp add: ws_step_def feed_step_def)
  ultimately show ?thesis using run by (simp only: append.simps)
qed

section \<open>The feed outlives the session\<close>

text \<open>
  Logging out does not close an open feed. Once a connection is open, it forwards every message of
  the broadcast channel, in order, whatever has become of its session meanwhile: the states it runs
  against are arbitrary, also ones without any session, and ones after the token's expiry.
\<close>
theorem ws_outlives_session:
  assumes "ws_phase s = Open c" and "\<forall>x \<in> set xs. \<exists>m. fst x = Broadcast m True"
  shows "ws_run L xs s = s\<lparr>ws_sent := ws_sent s @
    map (\<lambda>x. case fst x of Broadcast m ok \<Rightarrow> m | _ \<Rightarrow> '''') xs\<rparr>"
  using assms
proof (induction L xs s rule: ws_run.induct)
  case (2 L i a xs s)
  then obtain m where i: "i = Broadcast m True" by auto
  then have "fst (ws_step L i s a) = s\<lparr>ws_sent := ws_sent s @ [m]\<rparr>"
    using 2(2) by (simp add: ws_step_def feed_step_def)
  with 2 i show ?case by simp
qed simp


theorem ws_outlives_session_witness:
  "ws_run sample_libs [(Broadcast ''reading'' True, sample_app)]
     \<lparr>ws_phase = Open (sample_claims ''operator''), ws_sent = [auth_ok_text]\<rparr> =
   \<lparr>ws_phase = Open (sample_claims ''operator''), ws_sent = [auth_ok_text, ''reading'']\<rparr> \<and>
   sessions sample_app ''s1'' = None"
  using ws_outlives_session [where L = sample_libs and xs = "[(Broadcast ''reading'' True, sample_app)]"
      and s = "\<lparr>ws_phase = Open (sample_claims ''operator''), ws_sent = [auth_ok_text]\<rparr>"]
  by (simp add: sample_app_def app_new_def)

end
