(* ===== verification/RateLimit.thy ===== *)
theory RateLimit
  imports Auth
begin

text \<open>
  Rate limiting: \<open>server/src/rate_limit.rs\<close>. A token bucket per client address, with the elapsed time
  and the tokens as exact rationals where the code has doubles, and the middleware that takes the
  address from the request. Both are functions of the moment the clock gives; the 429 answer is the
  text that the middleware returns.
\<close>

section \<open>The limiter\<close>

record bucket =
  tokens :: f64
  last_refill :: time

record limiter =
  buckets :: "string \<rightharpoonup> bucket"
  max_tokens :: f64
  refill_rate :: f64

definition limiter_new :: "f64 \<Rightarrow> f64 \<Rightarrow> limiter" where
  "limiter_new burst rate = \<lparr>buckets = Map.empty, max_tokens = burst, refill_rate = rate\<rparr>"

text \<open>\<open>now.duration_since(t).as_secs_f64()\<close>, which is zero for a later \<open>t\<close>.\<close>
definition secs_since :: "time \<Rightarrow> time \<Rightarrow> f64" where
  "secs_since now t = (if now \<le> t then 0 else of_int (now - t) / 1000000000)"

definition check :: "string \<Rightarrow> time \<Rightarrow> limiter \<Rightarrow> bool \<times> limiter" where
  "check ip now l =
     (let b = (case buckets l ip of None \<Rightarrow> \<lparr>tokens = max_tokens l, last_refill = now\<rparr> | Some b \<Rightarrow> b);
          b = \<lparr>tokens = min (tokens b + secs_since now (last_refill b) * refill_rate l) (max_tokens l),
               last_refill = now\<rparr>
      in if 1 \<le> tokens b
         then (True, l\<lparr>buckets := (buckets l)(ip \<mapsto> b\<lparr>tokens := tokens b - 1\<rparr>)\<rparr>)
         else (False, l\<lparr>buckets := (buckets l)(ip \<mapsto> b)\<rparr>))"

text \<open>\<open>as_secs() < 300\<close>: whole seconds.\<close>
definition cleanup :: "time \<Rightarrow> limiter \<Rightarrow> limiter" where
  "cleanup now l = l\<lparr>buckets := (\<lambda>ip. case buckets l ip of None \<Rightarrow> None
     | Some b \<Rightarrow> if elapsed_secs now (last_refill b) < 300 then Some b else None)\<rparr>"

text \<open>
  The address of a request: the first of the forwarded-for list, else that of the connection where
  the server was set up to record it.
\<close>
definition client_ip :: "headers \<Rightarrow> string option \<Rightarrow> string" where
  "client_ip h connect_info =
     (case Option.bind (h ''x-forwarded-for'') to_str of
        Some s \<Rightarrow> trim (split_first (CHR '','') s)
      | None \<Rightarrow> (case connect_info of Some ip \<Rightarrow> ip | None \<Rightarrow> ''unknown''))"

definition global_limiter :: limiter where
  "global_limiter = limiter_new 100 20"

definition too_many :: http_response where
  "too_many = \<lparr>status = 429, body = JStr ''Rate limit exceeded. Try again in a few seconds.''\<rparr>"

definition rate_limit_middleware ::
    "headers \<Rightarrow> string option \<Rightarrow> time \<Rightarrow> (app_state \<Rightarrow> http_response \<times> app_state) \<Rightarrow>
     limiter \<times> app_state \<Rightarrow> http_response \<times> limiter \<times> app_state" where
  "rate_limit_middleware h connect_info now nxt s =
     (case s of (l, a) \<Rightarrow>
       (case check (client_ip h connect_info) now l of
          (False, l) \<Rightarrow> (too_many, l, a)
        | (True, l) \<Rightarrow> (case nxt a of (r, a) \<Rightarrow> (r, l, a))))"

section \<open>What a bucket lets through\<close>

text \<open>A run of checks, with the number that one address had admitted.\<close>
fun checks :: "(string \<times> time) list \<Rightarrow> limiter \<Rightarrow> limiter" where
  "checks [] l = l"
| "checks ((ip, now) # xs) l = checks xs (snd (check ip now l))"

fun admitted :: "string \<Rightarrow> (string \<times> time) list \<Rightarrow> limiter \<Rightarrow> nat" where
  "admitted p [] l = 0"
| "admitted p ((ip, now) # xs) l =
     (if ip = p \<and> fst (check ip now l) then 1 else 0) + admitted p xs (snd (check ip now l))"

text \<open>The tokens an address has, counted at a moment: a new address has a full bucket.\<close>
definition available :: "string \<Rightarrow> time \<Rightarrow> limiter \<Rightarrow> f64" where
  "available p now l = (case buckets l p of None \<Rightarrow> max_tokens l
     | Some b \<Rightarrow> min (tokens b + secs_since now (last_refill b) * refill_rate l) (max_tokens l))"

lemma check_admits: "fst (check ip now l) \<longleftrightarrow> 1 \<le> available ip now l"
  by (simp add: check_def available_def Let_def secs_since_def split: option.split)

lemma check_other [simp]:
  "p \<noteq> ip \<Longrightarrow> buckets (snd (check ip now l)) p = buckets l p"
  "max_tokens (snd (check ip now l)) = max_tokens l"
  "refill_rate (snd (check ip now l)) = refill_rate l"
  by (simp_all add: check_def Let_def)

lemma check_bucket:
  "buckets (snd (check ip now l)) ip = Some \<lparr>tokens = available ip now l -
     (if fst (check ip now l) then 1 else 0), last_refill = now\<rparr>"
  unfolding check_admits
  by (simp add: check_def available_def Let_def secs_since_def split: option.split)

lemma secs_since_zero [simp]: "secs_since t t = 0"
  by (simp add: secs_since_def)

lemma secs_since_add: "a \<le> b \<Longrightarrow> b \<le> c \<Longrightarrow> secs_since c a = secs_since c b + secs_since b a"
  by (auto simp: secs_since_def add_divide_distrib [symmetric])

lemma secs_since_nonneg: "0 \<le> secs_since b a"
  by (simp add: secs_since_def)

lemma available_max: "available p now l \<le> max_tokens l"
  by (simp add: available_def split: option.split)

lemma available_after:
  assumes "0 \<le> refill_rate l"
  shows "available p now (snd (check p now l)) = available p now l - (if fst (check p now l) then 1 else 0)"
  using available_max [of p now l] by (simp add: available_def [of _ _ "snd _"] check_bucket)

text \<open>The buckets hold no negative number of tokens and were last filled before a moment.\<close>
definition limiter_ok :: "time \<Rightarrow> limiter \<Rightarrow> bool" where
  "limiter_ok s l \<longleftrightarrow> 0 \<le> refill_rate l \<and> 0 \<le> max_tokens l \<and>
     (\<forall>p b. buckets l p = Some b \<longrightarrow> 0 \<le> tokens b \<and> last_refill b \<le> s)"

lemma limiter_ok_new: "0 \<le> burst \<Longrightarrow> 0 \<le> rate \<Longrightarrow> limiter_ok s (limiter_new burst rate)"
  by (simp add: limiter_ok_def limiter_new_def)

lemma available_nonneg: "limiter_ok s l \<Longrightarrow> 0 \<le> available p t l"
  by (simp add: available_def limiter_ok_def secs_since_nonneg split: option.split)

lemma limiter_ok_check [keeps]:
  assumes "limiter_ok s l" and "s \<le> now"
  shows "limiter_ok now (snd (check ip now l))"
  unfolding limiter_ok_def
proof (intro conjI allI impI)
  fix p b assume b: "buckets (snd (check ip now l)) p = Some b"
  have "0 \<le> tokens b \<and> last_refill b \<le> now"
  proof (cases "p = ip")
    case True
    with b check_admits [of ip now l] available_nonneg [OF assms(1), of ip now] show ?thesis
      by (auto simp: check_bucket)
  next
    case False
    with b assms show ?thesis by (force simp: limiter_ok_def)
  qed
  then show "0 \<le> tokens b" "last_refill b \<le> now" by simp_all
qed (use assms in \<open>simp_all add: limiter_ok_def\<close>)

text \<open>The tokens grow at most at the refill rate.\<close>
lemma available_grows:
  assumes "limiter_ok s l" and "s \<le> t"
  shows "available p t l \<le> available p s l + secs_since t s * refill_rate l"
proof (cases "buckets l p")
  case None
  then show ?thesis using assms(1) by (simp add: available_def secs_since_nonneg limiter_ok_def)
next
  case (Some b)
  have "0 \<le> secs_since t s * refill_rate l"
    using assms(1) by (simp add: secs_since_nonneg limiter_ok_def)
  moreover have "secs_since t (last_refill b) = secs_since t s + secs_since s (last_refill b)"
    using assms Some by (intro secs_since_add) (auto simp: limiter_ok_def)
  ultimately show ?thesis
    using Some by (simp add: available_def distrib_right min_def)
qed

lemma admitted_bound:
  assumes "limiter_ok s l" and "sorted (s # map snd xs @ [t])"
  shows "of_nat (admitted p xs l) \<le> available p s l + secs_since t s * refill_rate l"
  using assms
proof (induction xs arbitrary: l s)
  case Nil
  then have "0 \<le> secs_since t s * refill_rate l" "0 \<le> available p s l"
    by (simp_all add: secs_since_nonneg limiter_ok_def available_nonneg [OF Nil(1)])
  then show ?case by simp
next
  case (Cons x xs)
  obtain ip now where x: "x = (ip, now)" by fastforce
  let ?l = "snd (check ip now l)"
  have now: "s \<le> now" "now \<le> t" "sorted (now # map snd xs @ [t])" using Cons.prems(2) x by auto
  have IH: "of_nat (admitted p xs ?l) \<le> available p now ?l + secs_since t now * refill_rate l"
    using Cons.IH [OF limiter_ok_check [OF Cons.prems(1) now(1)] now(3)] by simp
  have grow: "available p now l \<le> available p s l + secs_since now s * refill_rate l"
    using available_grows [OF Cons.prems(1) now(1)] .
  have split: "secs_since t s * refill_rate l =
      secs_since t now * refill_rate l + secs_since now s * refill_rate l"
    using secs_since_add [OF now(1,2)] by (simp add: distrib_right)
  show ?case
  proof (cases "ip = p")
    case True
    then have "available p now ?l = available p now l - (if fst (check p now l) then 1 else 0)"
      using Cons.prems(1) by (simp add: available_after limiter_ok_def)
    with IH grow split True x show ?thesis by (auto split: if_splits)
  next
    case False
    then have "available p now ?l = available p now l"
      by (simp add: available_def split: option.split)
    with IH grow split False x show ?thesis by simp
  qed
qed

text \<open>
  C31: no address gets more than its burst and its rate. In any stretch of time, however the requests of
  the clients interleave, the requests that the limiter admits for one address are at most the burst
  size plus the refill rate times the length of the stretch in seconds: for the server's limiter, 100
  and 20 for each second.
\<close>
theorem rate_bound:
  assumes "limiter_ok s l" and "sorted (s # map snd xs @ [t])"
  shows "rat_of_nat (admitted p xs l) \<le>
    max_tokens l + rat_of_int (t - s) / 1000000000 * refill_rate l"
proof -
  have "s \<le> t" using assms(2) by simp
  then have secs: "rat_of_int (t - s) / 1000000000 = secs_since t s" by (simp add: secs_since_def)
  show ?thesis
    unfolding secs using admitted_bound [OF assms, of p] available_max [of p s l] by linarith
qed

theorem rate_bound_witness:
  "rat_of_nat (admitted ''10.0.0.9'' [(''10.0.0.9'', 1), (''10.0.0.8'', 2), (''10.0.0.9'', 3)]
     global_limiter) \<le> 100 + rat_of_int (1000000000 - 0) / 1000000000 * 20"
proof -
  have "limiter_ok 0 global_limiter" by (simp add: global_limiter_def limiter_ok_new)
  moreover have "sorted (0 # map snd [(''10.0.0.9'', 1), (''10.0.0.8'', 2), (''10.0.0.9'', 3)] @
      [1000000000 :: time])" by simp
  ultimately show ?thesis
    using rate_bound [of 0 global_limiter] by (fastforce simp: global_limiter_def limiter_new_def)
qed

section \<open>Whose bucket it is\<close>

fun passed :: "(string \<times> time) list \<Rightarrow> limiter \<Rightarrow> bool list" where
  "passed [] l = []"
| "passed ((ip, now) # xs) l = fst (check ip now l) # passed xs (snd (check ip now l))"

lemma passed_fresh:
  assumes "1 \<le> max_tokens l" and "distinct (map fst xs)" and "\<forall>x \<in> set xs. buckets l (fst x) = None"
  shows "passed xs l = replicate (length xs) True"
  using assms
proof (induction xs l rule: passed.induct)
  case (2 ip now xs l)
  have "buckets (snd (check ip now l)) (fst x) = None" if "x \<in> set xs" for x
    using 2(3,4) that by (subst check_other) auto
  with 2 show ?case by (simp add: check_admits available_def)
qed simp

text \<open>
  The limit is the client's to avoid. The address is whatever the forwarded-for header says, so a
  client that sends a new value with each request is never refused, at any speed.
\<close>
theorem forwarded_header_evades_limit:
  assumes "1 \<le> max_tokens l" and "distinct (map (\<lambda>r. client_ip (fst r) connection) requests)"
    and "\<forall>r \<in> set requests. buckets l (client_ip (fst r) connection) = None"
  shows "passed (map (\<lambda>r. (client_ip (fst r) connection, snd r)) requests) l =
    replicate (length requests) True"
  using passed_fresh [of l "map (\<lambda>r. (client_ip (fst r) connection, snd r)) requests"] assms
  by (simp add: comp_def)

theorem forwarded_header_evades_limit_witness:
  "passed [(client_ip [''x-forwarded-for'' \<mapsto> ''1''] None, 0), (client_ip [''x-forwarded-for'' \<mapsto> ''2''] None, 0)]
     global_limiter = [True, True]"
proof -
  have ip: "client_ip [''x-forwarded-for'' \<mapsto> ''1''] None = ''1''"
    "client_ip [''x-forwarded-for'' \<mapsto> ''2''] None = ''2''" by code_simp+
  have "1 \<le> max_tokens global_limiter" "buckets global_limiter x = None" for x
    by (simp_all add: global_limiter_def limiter_new_def)
  then show ?thesis
    using forwarded_header_evades_limit [of global_limiter None
        "[([''x-forwarded-for'' \<mapsto> ''1''], 0), ([''x-forwarded-for'' \<mapsto> ''2''], 0)]"]
    by (simp add: ip)
qed

end
