(* ===== verification/Server.thy ===== *)
theory Server
  imports Routes Discovery Export Ws RateLimit
begin

text \<open>
  The server as a whole: \<open>server/src/main.rs\<close>. Start-up, the route table with the middleware that
  guards each group of routes, and one request from the rate limiter to the handler. A request is
  given after axum has matched its route and read its path, query and JSON parameters; requests that
  axum itself answers (an unknown route, a parameter that does not parse) never reach this code. A
  text or CSV body is a JSON string here. A handler that panics answers nothing: \<open>dropped\<close>.
\<close>

section \<open>The parameters of the server\<close>

record ('n, 'w) env =
  ev_libs :: libs
  ev_net :: "'n net"
  ev_csv :: "'w csv"
  ev_digits :: "f64 \<Rightarrow> string"
  ev_write :: "string \<Rightarrow> write_request result"
  ev_ack :: "string \<Rightarrow> string option result"
  ev_shelve :: "string \<Rightarrow> shelve_request result"
  ev_user :: "string \<Rightarrow> create_user_request result"
  ev_device :: device_env

section \<open>Start-up\<close>

text \<open>Database, tables and accounts, then the devices; \<open>None\<close> when one of the steps panics.\<close>
definition start_server :: "libs \<Rightarrow> app_config \<Rightarrow> world \<Rightarrow> app_state option" where
  "start_server L config w =
     (case init_db_with_pool w of
        None \<Rightarrow> None
      | Some w \<Rightarrow>
       (case init_auth_tables L w of
          None \<Rightarrow> None
        | Some w \<Rightarrow> start_devices L config (app_new w config)))"

section \<open>The routes\<close>

datatype request =
    Health | Login login_request | VerifyToken | Logout
  | GetDevices | GetHistory string "int option" | GetAudit audit_query_params | Esig esig_request
  | ListAlarms alarm_query_params | GetAlarm int | ListBatches batch_query_params | GetBatch string
  | ExportAlarms alarm_query_params | ExportBatches batch_query_params
  | ExportAudit audit_query_params | ExportHistory string "int option"
  | AddDevice add_device_request | RemoveDevice string | ConnectDevice string
  | DisconnectDevice string | Discover "scan_request option" | Browse string "string option"
  | PostWrite "string option" | AckAlarm int "string option" | ShelveAlarm int "string option"
  | ListUsers | CreateUser "string option"

text \<open>The group a route is in: public, or behind the middleware for a role.\<close>
fun route_role :: "request \<Rightarrow> Role option" where
  "route_role Health = None" | "route_role (Login _) = None" | "route_role VerifyToken = None"
| "route_role Logout = None"
| "route_role GetDevices = Some Viewer" | "route_role (GetHistory _ _) = Some Viewer"
| "route_role (GetAudit _) = Some Viewer" | "route_role (Esig _) = Some Viewer"
| "route_role (ListAlarms _) = Some Viewer" | "route_role (GetAlarm _) = Some Viewer"
| "route_role (ListBatches _) = Some Viewer" | "route_role (GetBatch _) = Some Viewer"
| "route_role (ExportAlarms _) = Some Viewer" | "route_role (ExportBatches _) = Some Viewer"
| "route_role (ExportAudit _) = Some Viewer" | "route_role (ExportHistory _ _) = Some Viewer"
| "route_role (AddDevice _) = Some Operator" | "route_role (RemoveDevice _) = Some Operator"
| "route_role (ConnectDevice _) = Some Operator" | "route_role (DisconnectDevice _) = Some Operator"
| "route_role (Discover _) = Some Operator" | "route_role (Browse _ _) = Some Operator"
| "route_role (PostWrite _) = Some Operator" | "route_role (AckAlarm _ _) = Some Operator"
| "route_role (ShelveAlarm _ _) = Some Operator"
| "route_role ListUsers = Some Admin" | "route_role (CreateUser _) = Some Admin"

definition dropped :: http_response where
  "dropped = \<lparr>status = 0, body = JNull\<rparr>"

definition text_http :: "string \<Rightarrow> http_response" where
  "text_http t = \<lparr>status = 200, body = JStr t\<rparr>"

text \<open>A handler's result as the response, and the same for one that may panic.\<close>
definition respond :: "('a \<Rightarrow> json) \<Rightarrow> 'a api_response \<times> app_state \<Rightarrow> http_response \<times> app_state" where
  "respond f x = (api_http f (fst x), snd x)"

definition respond_opt ::
    "('a \<Rightarrow> json) \<Rightarrow> app_state \<Rightarrow> ('a api_response \<times> app_state) option \<Rightarrow>
     http_response \<times> app_state" where
  "respond_opt f a x = (case x of None \<Rightarrow> (dropped, a) | Some y \<Rightarrow> respond f y)"

definition download :: "report \<times> app_state \<Rightarrow> http_response \<times> app_state" where
  "download x = (text_http (rp_bytes (fst x)), snd x)"

fun handle ::
    "('n, 'w) env \<Rightarrow> headers \<Rightarrow> request \<Rightarrow> claims option \<Rightarrow> app_state \<Rightarrow> http_response \<times> app_state" where
  "handle e h Health c a = (text_http ''OK'', a)"
| "handle e h (Login req) c a = login (ev_libs e) req a"
| "handle e h VerifyToken c a = verify_token_handler (ev_libs e) h a"
| "handle e h Logout c a = logout (ev_libs e) h a"
| "handle e h GetDevices c a = respond (JArr \<circ> map plc_device_json) (get_devices a, a)"
| "handle e h (GetHistory dev n) c a =
     respond (JArr \<circ> map (reading_json (ev_libs e))) (get_history_route (ev_libs e) dev n a)"
| "handle e h (GetAudit p) c a = get_audit_trail p a"
| "handle e h (Esig req) c a = electronic_signature (ev_libs e) req a"
| "handle e h (ListAlarms p) c a =
     respond (JArr \<circ> map alarm_json) (list_alarms_route (ev_libs e) p a)"
| "handle e h (GetAlarm i) c a = respond alarm_json (get_alarm_route i a)"
| "handle e h (ListBatches p) c a = respond (JArr \<circ> map batch_json) (list_batches_route p a)"
| "handle e h (GetBatch i) c a = respond id (get_batch_route i a)"
| "handle e h (ExportAlarms p) c a = download (export_alarms_csv (ev_csv e) (ev_digits e) p a)"
| "handle e h (ExportBatches p) c a = download (export_batches_csv (ev_csv e) p a)"
| "handle e h (ExportAudit p) c a = download (export_audit_csv (ev_csv e) p a)"
| "handle e h (ExportHistory dev n) c a =
     download (export_history_csv (ev_libs e) (ev_csv e) (ev_digits e) dev n a)"
| "handle e h (AddDevice req) c a = respond_opt plc_device_json a (add_device (ev_libs e) req a)"
| "handle e h (RemoveDevice i) c a = respond JStr (remove_device i a)"
| "handle e h (ConnectDevice i) c a = respond_opt plc_device_json a (connect_device (ev_libs e) i a)"
| "handle e h (DisconnectDevice i) c a = respond JStr (disconnect_device i a)"
| "handle e h (Discover req) c a =
     respond (JArr \<circ> map discovered_device_json) (discover_devices (ev_net e) req, a)"
| "handle e h (Browse url p) c a =
     respond (JArr \<circ> map opcua_node_json) (browse_opcua (ev_net e) url p, a)"
| "handle e h (PostWrite b) c a =
     respond JStr (post_write (ev_libs e) (ev_write e) (ev_device e) c b a)"
| "handle e h (AckAlarm i b) c a = respond JStr (ack_alarm_route (ev_libs e) (ev_ack e) i c b a)"
| "handle e h (ShelveAlarm i b) c a =
     respond JStr (shelve_alarm_route (ev_libs e) (ev_shelve e) i c b a)"
| "handle e h ListUsers c a = list_users a"
| "handle e h (CreateUser b) c a = create_user (ev_libs e) (ev_user e) c b a"

text \<open>One request at the router: the middleware of its group, then its handler.\<close>
definition serve ::
    "('n, 'w) env \<Rightarrow> headers \<Rightarrow> request \<Rightarrow> app_state \<Rightarrow> http_response \<times> app_state" where
  "serve e h req a =
     (case route_role req of
        None \<Rightarrow> handle e h req None a
      | Some role \<Rightarrow> guard_of role (ev_libs e) h (\<lambda>c. handle e h req (Some c)) a)"

text \<open>
  The whole service: the rate limiter is the outer layer. Neither of the two ways in which the
  server listens records the peer's address, so the limiter sees none.
\<close>
definition service ::
    "('n, 'w) env \<Rightarrow> headers \<Rightarrow> time \<Rightarrow> request \<Rightarrow> limiter \<times> app_state \<Rightarrow>
     http_response \<times> limiter \<times> app_state" where
  "service e h now req s = rate_limit_middleware h None now (serve e h req) s"

section \<open>What the requests leave alone\<close>

text \<open>A world that differs in how often the environment was asked, and no more.\<close>
definition asked_only :: "world \<Rightarrow> world \<Rightarrow> bool" where
  "asked_only w w' \<longleftrightarrow> w' = w\<lparr>sql_calls := sql_calls w', wall_reads := wall_reads w',
     mono_reads := mono_reads w', uuid_reads := uuid_reads w', salt_reads := salt_reads w'\<rparr>"

lemma asked_onlyD:
  assumes "asked_only w w'"
  shows "devices_tbl w' = devices_tbl w" "plc_readings w' = plc_readings w"
    "batch_records w' = batch_records w" "batch_steps w' = batch_steps w" "alarms w' = alarms w"
    "users w' = users w" "audit_trail w' = audit_trail w"
  using assms by (cases w, cases w', simp add: asked_only_def)+

lemma asked_only_refl [simp]: "asked_only w w"
  by (simp add: asked_only_def)

lemma asked_only_ops:
  "asked_only w (snd (sql w))" "asked_only w (snd (utc_now w))" "asked_only w (snd (instant_now w))"
  "asked_only w (snd (new_uuid w))" "asked_only w (snd (new_salt w))"
  "asked_only w (snd (hash_password L p w))" "asked_only w (snd (validate_token L t k w))"
  "asked_only w (snd (create_token L i n r k w))" "asked_only w (snd (get_alarm j w))"
  "asked_only w (snd (list_alarms q w))" "asked_only w (snd (get_history L dev m w))"
  "asked_only w (snd (list_batches bq w))" "asked_only w (snd (get_batch_with_steps b w))"
  "asked_only w (snd (audit_rows ap w))" "asked_only w (snd (export_audit_rows ap w))"
  "asked_only w (snd (load_devices L w))"
  by (cases w, simp add: asked_only_def env_defs hash_password_def validate_token_def
      create_token_def get_alarm_def list_alarms_def get_history_def list_batches_def
      get_batch_with_steps_def audit_rows_def export_audit_rows_def load_devices_def Let_def
      split: option.split prod.split)+

lemmas asked_only_simps [simp] = asked_only_ops [THEN asked_onlyD(1)]
  asked_only_ops [THEN asked_onlyD(2)] asked_only_ops [THEN asked_onlyD(3)]
  asked_only_ops [THEN asked_onlyD(4)] asked_only_ops [THEN asked_onlyD(5)]
  asked_only_ops [THEN asked_onlyD(6)] asked_only_ops [THEN asked_onlyD(7)]

text \<open>
  The parts of the state that the access rules are about: the registry with its tasks and stored
  devices, the process data (alarms, batches, readings), the accounts, and the audit trail, which
  may only grow.
\<close>
definition same_devices :: "app_state \<Rightarrow> app_state \<Rightarrow> bool" where
  "same_devices a a' \<longleftrightarrow> app_devices a' = app_devices a \<and> app_tasks a' = app_tasks a \<and>
     app_stopped a' = app_stopped a \<and> devices_tbl (app_db a') = devices_tbl (app_db a)"

definition same_process :: "app_state \<Rightarrow> app_state \<Rightarrow> bool" where
  "same_process a a' \<longleftrightarrow> alarms (app_db a') = alarms (app_db a) \<and>
     batch_records (app_db a') = batch_records (app_db a) \<and>
     batch_steps (app_db a') = batch_steps (app_db a) \<and>
     plc_readings (app_db a') = plc_readings (app_db a)"

definition same_users :: "app_state \<Rightarrow> app_state \<Rightarrow> bool" where
  "same_users a a' \<longleftrightarrow> users (app_db a') = users (app_db a)"

definition audit_grows :: "app_state \<Rightarrow> app_state \<Rightarrow> bool" where
  "audit_grows a a' \<longleftrightarrow> (\<exists>new. rows (audit_trail (app_db a')) = rows (audit_trail (app_db a)) @ new \<and>
     list_all (\<lambda>e. ae_ip_address e = None) new)"

lemma audit_grows_same [simp]:
  "rows (audit_trail (app_db a')) = rows (audit_trail (app_db a)) \<Longrightarrow> audit_grows a a'"
  by (simp add: audit_grows_def)

lemma audit_grows_trans: "audit_grows a b \<Longrightarrow> audit_grows b c \<Longrightarrow> audit_grows a c"
  by (fastforce simp: audit_grows_def)

lemmas part_defs = same_devices_def same_process_def same_users_def

datatype part = Devices | Process | Accounts

definition only :: "part set \<Rightarrow> app_state \<Rightarrow> app_state \<Rightarrow> bool" where
  "only S a a' \<longleftrightarrow> (Devices \<in> S \<or> same_devices a a') \<and> (Process \<in> S \<or> same_process a a') \<and>
     (Accounts \<in> S \<or> same_users a a') \<and> audit_grows a a'"

lemma only_refl [simp]: "only S a a"
  by (simp add: only_def part_defs)

lemma only_trans: "only S a b \<Longrightarrow> only S b c \<Longrightarrow> only S a c"
  by (auto simp: only_def part_defs intro: audit_grows_trans)

lemma only_clock: "clock_only a b \<Longrightarrow> only S a b"
  by (auto simp: clock_only_def only_def part_defs)

text \<open>
  The operations step by step: the parts changed so far are still the only ones. \<open>only_bind\<close> follows a handler through
  an operation that returns a value and the next state.
\<close>
named_theorems only_intros

lemma only_bind [only_intros]:
  "only S a (snd p) \<Longrightarrow> (\<And>x b. only S a b \<Longrightarrow> only S a (snd (F x b))) \<Longrightarrow>
     only S a (snd (case p of (x, b) \<Rightarrow> F x b))"
  by (cases p) simp

lemma only_next:
  assumes "only S a b" and "only S b c" shows "only S a c"
  using assms by (rule only_trans)

lemma only_db:
  assumes "only S a b" and "asked_only (app_db b) (snd (f (app_db b)))"
  shows "only S a (snd (on_db f b))"
  using assms(1) by (rule only_trans) (use assms(2) in \<open>auto simp: only_def part_defs dest: asked_onlyD\<close>)

lemmas only_queries [only_intros] = only_db [where f = sql, OF _ asked_only_ops(1)]
  only_db [where f = utc_now, OF _ asked_only_ops(2)]
  only_db [where f = instant_now, OF _ asked_only_ops(3)]
  only_db [where f = "create_token L i n r k" for L i n r k, OF _ asked_only_ops(8)]
  only_db [where f = "validate_token L t k" for L t k, OF _ asked_only_ops(7)]
  only_db [where f = "get_alarm j" for j, OF _ asked_only_ops(9)]
  only_db [where f = "list_alarms q" for q, OF _ asked_only_ops(10)]
  only_db [where f = "get_history L dev m" for L dev m, OF _ asked_only_ops(11)]
  only_db [where f = "list_batches bq" for bq, OF _ asked_only_ops(12)]
  only_db [where f = "get_batch_with_steps b" for b, OF _ asked_only_ops(13)]
  only_db [where f = "audit_rows ap" for ap, OF _ asked_only_ops(14)]
  only_db [where f = "export_audit_rows ap" for ap, OF _ asked_only_ops(15)]

lemma audit_grows_log: "audit_grows a (do_db (log_audit L u n x d t None) a)"
proof (cases "sql_fault (app_db a) (sql_calls (app_db a))")
  case None
  then show ?thesis by (simp add: audit_grows_def log_audit_table audit_columns_def)
qed (simp add: log_audit_table)

lemma only_log [only_intros]: "only S a b \<Longrightarrow> only S a (do_db (log_audit L u n x d t None) b)"
  by (erule only_next) (auto simp: only_def part_defs audit_grows_log log_audit_def env_defs Let_def
      split: option.split)

lemma only_stores [only_intros]:
  "only S a b \<Longrightarrow> only S a (b\<lparr>sessions := s\<rparr>)" "only S a b \<Longrightarrow> only S a (b\<lparr>login_attempts := m\<rparr>)"
  "only S a b \<Longrightarrow> only S a (revoke_session sid b)" "only S a b \<Longrightarrow> only S a (register_session sid u e b)"
  "only S a b \<Longrightarrow> only S a (clear_failed_login n b)"
  by (erule only_next,
      simp add: only_def part_defs revoke_session_def register_session_def clear_failed_login_def)+

lemma only_session [only_intros]: "only S a b \<Longrightarrow> only S a (snd (session_live c b))"
  by (erule only_next) (simp add: session_live_eq only_clock clock_only_session)

lemma only_throttle [only_intros]: "only S a b \<Longrightarrow> only S a (snd (check_login_throttle n b))"
  by (auto simp: check_login_throttle_def Let_def split: option.split intro!: only_intros)

lemma only_failed [only_intros]: "only S a b \<Longrightarrow> only S a (record_failed_login n b)"
  by (erule only_next)
    (auto simp: record_failed_login_def Let_def split_beta only_def part_defs split: option.split)

lemma only_audit_as [only_intros]: "only S a b \<Longrightarrow> only S a (audit_as L c x d t b)"
  by (auto simp: audit_as_def split: option.split intro: only_intros)

lemma only_login: "only S a (snd (login L req a))"
  by (auto simp: login_def Let_def split: sum.split option.split intro!: only_intros)


lemma only_respond [only_intros]:
  "only S a (snd x) \<Longrightarrow> only S a (snd (respond f x))" "only S a (snd y) \<Longrightarrow> only S a (snd (download y))"
  by (simp_all add: respond_def download_def)

lemma only_users [only_intros]:
  "Accounts \<in> S \<Longrightarrow> only S a b \<Longrightarrow> only S a (snd (on_db (insert_user i n x r now) b))"
  "only S a b \<Longrightarrow> only S a (snd (on_db new_uuid b))"
  "only S a b \<Longrightarrow> only S a (snd (on_db (hash_password L p) b))"
proof -
  show "only S a (snd (on_db (insert_user i n x r now) b))" if "Accounts \<in> S" "only S a b"
    using that(2) by (rule only_trans) (use that(1) in \<open>auto simp: only_def part_defs insert_user_def
      sql_def split: option.split\<close>)
  show "only S a (snd (on_db new_uuid b))" if "only S a b"
    using that by (rule only_db) (rule asked_only_ops)
  show "only S a (snd (on_db (hash_password L p) b))" if "only S a b"
    using that by (rule only_db) (rule asked_only_ops)
qed

lemma only_alarms_db [only_intros]:
  assumes "Process \<in> S" and "only S a b"
  shows "only S a (snd (on_db (ack_alarm L i u x) b))" "only S a (snd (on_db (shelve_alarm L i u m rs) b))"
    "only S a (do_db (unshelve_expired L) b)"
  using assms(2) by (rule only_trans, use assms(1) in \<open>simp add: only_def part_defs\<close>)+

lemma device_row_frame [simp]:
  "plc_readings (save_device L dev w) = plc_readings w" "plc_readings (delete_device i w) = plc_readings w"
  by (simp_all add: save_device_def delete_device_def sql_def split: option.split)

lemma only_registry [only_intros]:
  assumes "Devices \<in> S" and "only S a b"
  shows "only S a (reg_insert i h b)" "only S a (reg_remove i b)" "only S a (abort_task k b)"
    "only S a (snd (start_polling dev b))" "only S a (do_db (save_device L dev) b)"
    "only S a (do_db (delete_device i) b)"
  using assms(2) by (rule only_trans, use assms(1) in \<open>simp add: only_def part_defs\<close>)+

text \<open>
  The parts of the state that a request is about, and a device task that answers without anything else
  happening in the meantime.
\<close>
fun parts_of :: "request \<Rightarrow> part set" where
  "parts_of (AddDevice _) = {Devices}" | "parts_of (RemoveDevice _) = {Devices}"
| "parts_of (ConnectDevice _) = {Devices}" | "parts_of (DisconnectDevice _) = {Devices}"
| "parts_of (AckAlarm _ _) = {Process}" | "parts_of (ShelveAlarm _ _) = {Process}"
| "parts_of (ListAlarms _) = {Process}" | "parts_of (CreateUser _) = {Accounts}"
| "parts_of _ = {}"

definition answers_alone :: "device_env \<Rightarrow> bool" where
  "answers_alone device \<longleftrightarrow> (\<forall>ch reg val a. snd (device ch reg val a) = a)"

lemma only_device [only_intros]:
  "answers_alone d \<Longrightarrow> only S a b \<Longrightarrow> only S a (snd (d ch reg val b))"
  by (simp add: answers_alone_def)

lemma only_add_device: "add_device L req a = Some (r, b) \<Longrightarrow> only {Devices} a b"
  by (auto simp: add_device_def add_device_start_def Let_def split_beta
      split: if_splits option.splits sum.splits intro!: only_intros)

lemma only_connect_device: "connect_device L i a = Some (r, b) \<Longrightarrow> only {Devices} a b"
  by (auto simp: connect_device_def connect_device_start_def Let_def split_beta
      split: if_splits option.splits sum.splits intro!: only_intros)

lemma only_respond_opt [only_intros]:
  "(\<And>r b. x = Some (r, b) \<Longrightarrow> only S a b) \<Longrightarrow> only S a (snd (respond_opt f a x))"
  by (auto simp: respond_opt_def respond_def split: option.split)

lemmas read_handlers = verify_token_handler_def logout_def get_history_route_def
  get_audit_trail_def electronic_signature_def get_alarm_route_def list_batches_route_def
  get_batch_route_def export_alarms_csv_def export_batches_csv_def export_audit_csv_def
  export_history_csv_def list_users_def list_alarms_route_def
lemmas write_handlers = remove_device_def disconnect_device_def post_write_def
  ack_alarm_route_def shelve_alarm_route_def create_user_def

lemma handle_only:
  assumes "answers_alone (ev_device e)"
  shows "only (parts_of req) a (snd (handle e h req c a))"
  using assms
  by (cases req) (auto simp: read_handlers write_handlers Let_def only_login
      only_add_device only_connect_device
      split: sum.split option.split bool.split intro!: only_intros)


section \<open>Who may change what\<close>

lemma authorised_Viewer: "authorised L r h a c \<Longrightarrow> authorised L Viewer h a c"
  by (simp add: authorised_def admit_Viewer)

lemma serve_cases:
  obtains (public) "route_role req = None" "serve e h req a = handle e h req None a"
  | (run) role c b where "route_role req = Some role" "authorised (ev_libs e) role h a c"
      "clock_only a b" "serve e h req a = handle e h req (Some c) b"
  | (refused) role where "route_role req = Some role" "\<And>c. \<not> authorised (ev_libs e) role h a c"
      "status (fst (serve e h req a)) \<in> {401, 403}" "clock_only a (snd (serve e h req a))"
proof (cases "route_role req")
  case None
  then show ?thesis by (intro public) (simp_all add: serve_def)
next
  case (Some role)
  show ?thesis
  proof (cases "\<exists>c. authorised (ev_libs e) role h a c")
    case True
    then obtain c where c: "authorised (ev_libs e) role h a c" ..
    from guard_of_passes [OF this, of "\<lambda>c. handle e h req (Some c)"] obtain b where
      "clock_only a b" "serve e h req a = handle e h req (Some c) b"
      using Some by (auto simp: serve_def)
    with Some c show ?thesis by (rule run)
  next
    case False
    then show ?thesis
      using Some guard_of_refuses [of "ev_libs e" role h a "\<lambda>c. handle e h req (Some c)"]
      by (intro refused) (auto simp: serve_def)
  qed
qed

lemma serve_only:
  assumes "answers_alone (ev_device e)"
  shows "only (parts_of req) a (snd (serve e h req a))"
proof (cases rule: serve_cases [of req e h a])
  case public
  then show ?thesis using handle_only [OF assms] by simp
next
  case (run role c b)
  then show ?thesis using only_trans [OF only_clock [OF run(3)] handle_only [OF assms]] by simp
next
  case refused
  then show ?thesis using only_clock by blast
qed

lemma handle_device:
  "\<forall>b. req \<noteq> PostWrite b \<Longrightarrow> handle (e\<lparr>ev_device := d\<rparr>) h req c = handle e h req c"
  by (rule ext, cases req) simp_all


definition sample_env :: "(unit, string list list) env" where
  "sample_env = \<lparr>ev_libs = sample_libs, ev_net = sample_net_scan, ev_csv = sample_csv,
     ev_digits = (\<lambda>_. ''?''), ev_write = (\<lambda>_. Inr sample_write), ev_ack = (\<lambda>_. Inr None),
     ev_shelve = (\<lambda>_. Inr sample_shelve), ev_user = (\<lambda>_. Inr sample_new_user),
     ev_device = (\<lambda>_ _ _ a. (Some (Inr ()), a))\<rparr>"

lemma sample_env_alone: "answers_alone (ev_device sample_env)"
  by (simp add: answers_alone_def sample_env_def)


section \<open>The audit trail\<close>

definition run_requests :: "('n, 'w) env \<Rightarrow> (headers \<times> request) list \<Rightarrow> app_state \<Rightarrow> app_state" where
  "run_requests e reqs a = fold (\<lambda>(h, req) a. snd (serve e h req a)) reqs a"

text \<open>
  The audit trail is append-only, and it knows no addresses. Whatever requests the server handles, by
  whomever, the entries that were in the trail stay there, unchanged and in their order; new ones
  come after them, and none of these carries the client's IP address.
\<close>
theorem audit_append_only:
  assumes "answers_alone (ev_device e)"
  shows "\<exists>new. rows (audit_trail (app_db (run_requests e reqs a))) =
    rows (audit_trail (app_db a)) @ new \<and> list_all (\<lambda>x. ae_ip_address x = None) new"
  unfolding audit_grows_def [symmetric]
proof (induction reqs arbitrary: a)
  case (Cons x reqs)
  obtain h req where x: "x = (h, req)" by fastforce
  have "audit_grows a (snd (serve e h req a))" using serve_only [OF assms] by (simp add: only_def)
  with Cons [of "snd (serve e h req a)"] x show ?case
    by (auto simp: run_requests_def intro: audit_grows_trans)
qed (simp add: run_requests_def)

theorem audit_append_only_witness:
  "\<exists>new. rows (audit_trail (app_db (run_requests sample_env
       [(bearer (sample_token ''operator''), Logout), (Map.empty, Health)] sample_session_app))) =
     rows (audit_trail (app_db sample_session_app)) @ new \<and> list_all (\<lambda>x. ae_ip_address x = None) new"
  by (rule audit_append_only [OF sample_env_alone])

text \<open>
  Changes of the device registry leave no trace. No request that adds, removes, connects or
  disconnects a device, successful or not, adds an entry to the audit trail.
\<close>
theorem registry_changes_unaudited:
  assumes "req \<in> {AddDevice x, RemoveDevice i, ConnectDevice i, DisconnectDevice i}"
  shows "audit_trail (app_db (snd (serve e h req a))) = audit_trail (app_db a)"
proof -
  have clock: "clock_only a b \<Longrightarrow> audit_trail (app_db b) = audit_trail (app_db a)" for b
    by (rule clock_onlyD)
  have "audit_trail (app_db (snd (handle e h req c b))) = audit_trail (app_db b)" for c b
    using assms
    by (auto simp: add_device_def add_device_start_def remove_device_def connect_device_def
        connect_device_start_def disconnect_device_def respond_def respond_opt_def Let_def split_beta
        split: option.split sum.split)
  then show ?thesis
    by (cases rule: serve_cases [of req e h a]) (use clock in auto)
qed


theorem registry_changes_unaudited_witness:
  "rows (audit_trail (app_db (snd (serve sample_env (bearer (sample_token ''operator''))
     (AddDevice sample_request) sample_session_app)))) = []"
proof -
  have "AddDevice sample_request \<in> {AddDevice sample_request, RemoveDevice ''x'', ConnectDevice ''x'',
      DisconnectDevice ''x''}" by simp
  note same = registry_changes_unaudited [OF this]
  show ?thesis by (simp add: same empty_table_def)
qed

section \<open>The whole service\<close>

text \<open>A request that the limiter refuses reaches no handler.\<close>
lemma service_limited:
  "available (client_ip h None) now l < 1 \<Longrightarrow>
     fst (service e h now req (l, a)) = too_many \<and> snd (snd (service e h now req (l, a))) = a"
proof -
  assume "available (client_ip h None) now l < 1"
  then have "\<not> fst (check (client_ip h None) now l)" by (simp add: check_admits)
  then show ?thesis
    by (cases "check (client_ip h None) now l") (simp add: service_def rate_limit_middleware_def)
qed

text \<open>All clients that send no forwarded-for header share one bucket.\<close>
lemma direct_clients_share_a_bucket: "h ''x-forwarded-for'' = None \<Longrightarrow> client_ip h None = ''unknown''"
  by (simp add: client_ip_def)

lemma start_server_ok:
  assumes "start_server L config w = Some a" and "distinct (map dc_id (ac_devices config))"
  shows "registry_ok a"
  using assms by (auto simp: start_server_def intro: start_devices_ok split: option.splits)

end
