(* ===== verification/System.thy ===== *)
theory System
  imports Server
begin

text \<open>
  The system as it runs: \<open>server/src/main.rs\<close> with everything that it starts. Requests, polling
  ticks, panicking tasks and restarts in any order are the relation \<open>reaches\<close>. \<open>db_ok\<close> is the
  invariant of the whole database and \<open>db_keeps\<close> what no operation loses; \<open>db_step\<close> says both of one
  operation, and \<open>moves\<close> of one handler. \<open>db_steps\<close> collects the operations and \<open>moves_intros\<close> follows
  a handler through them; the registry part rests on the lemmas of the theory \<open>Registry\<close>.
\<close>

section \<open>What the database holds\<close>

text \<open>
  The invariant of the database: ascending row ids, unique keys, and well-formed alarms and batches.
\<close>
definition db_ok :: "world \<Rightarrow> bool" where
  "db_ok w \<longleftrightarrow> tbl_ok rd_id (plc_readings w) \<and> tbl_ok ae_id (audit_trail w) \<and> alarms_ok w \<and>
     batches_ok w \<and> distinct (map dr_id (devices_tbl w)) \<and> distinct (map us_id (users w)) \<and>
     distinct (map us_username (users w))"

text \<open>A batch record later: its identity is fixed, and once it has ended it does not change.\<close>
definition batch_path :: "batch_row \<Rightarrow> batch_row \<Rightarrow> bool" where
  "batch_path r r' \<longleftrightarrow> br_id r' = br_id r \<and> br_batch_id r' = br_batch_id r \<and>
     br_recipe_name r' = br_recipe_name r \<and> br_device_id r' = br_device_id r \<and>
     br_operator r' = br_operator r \<and> br_start_time r' = br_start_time r \<and>
     (br_status r \<noteq> ''running'' \<longrightarrow> r' = r)"

lemma batch_path_refl: "batch_path r r"
  by (simp add: batch_path_def)

lemma batch_path_trans: "batch_path a b \<Longrightarrow> batch_path b c \<Longrightarrow> batch_path a c"
  by (auto simp: batch_path_def)

text \<open>Every row has a successor.\<close>
definition rows_kept :: "('r \<Rightarrow> 'r \<Rightarrow> bool) \<Rightarrow> 'r table \<Rightarrow> 'r table \<Rightarrow> bool" where
  "rows_kept R t t' \<longleftrightarrow> (\<forall>r \<in> set (rows t). \<exists>r' \<in> set (rows t'). R r r')"

lemma rows_kept_refl: "(\<And>r. R r r) \<Longrightarrow> rows_kept R t t"
  by (auto simp: rows_kept_def)

lemma rows_kept_update:
  assumes "\<And>r. R r r" and "\<And>r. r \<in> set (rows t) \<Longrightarrow> P r \<Longrightarrow> R r (f r)"
  shows "rows_kept R t (tbl_update P f t)"
  unfolding rows_kept_def
proof
  fix r assume "r \<in> set (rows t)"
  then show "\<exists>r' \<in> set (rows (tbl_update P f t)). R r r'"
    using assms by (intro bexI [of _ "if P r then f r else r"]) auto
qed

lemma rows_kept_paths:
  "rows_kept alarm_path s t \<Longrightarrow> rows_kept alarm_path t u \<Longrightarrow> rows_kept alarm_path s u"
  "rows_kept batch_path s' t' \<Longrightarrow> rows_kept batch_path t' u' \<Longrightarrow> rows_kept batch_path s' u'"
  unfolding rows_kept_def by (meson alarm_path_trans batch_path_trans)+

text \<open>What is never lost or rewritten: readings, audit entries, accounts, alarms, batches.\<close>
definition db_keeps :: "world \<Rightarrow> world \<Rightarrow> bool" where
  "db_keeps w w' \<longleftrightarrow> prefix (rows (plc_readings w)) (rows (plc_readings w')) \<and>
     prefix (rows (audit_trail w)) (rows (audit_trail w')) \<and> prefix (users w) (users w') \<and>
     rows_kept alarm_path (alarms w) (alarms w') \<and>
     rows_kept batch_path (batch_records w) (batch_records w')"

lemma db_keeps_refl: "db_keeps w w"
  by (simp add: db_keeps_def rows_kept_refl alarm_path_refl batch_path_refl)

lemma db_keeps_trans: "db_keeps a b \<Longrightarrow> db_keeps b c \<Longrightarrow> db_keeps a c"
  unfolding db_keeps_def by (meson prefix_order.trans rows_kept_paths)

text \<open>A step of the database.\<close>
definition db_step :: "world \<Rightarrow> world \<Rightarrow> bool" where
  "db_step w w' \<longleftrightarrow> (db_ok w \<longrightarrow> db_ok w' \<and> db_keeps w w')"

lemma db_step_refl: "db_step w w"
  by (simp add: db_step_def db_keeps_refl)

lemma db_step_trans [trans]: "db_step a b \<Longrightarrow> db_step b c \<Longrightarrow> db_step a c"
  by (auto simp: db_step_def intro: db_keeps_trans)

named_theorems db_steps

lemma db_step_asked:
  assumes "asked_only w w'" shows "db_step w w'"
  by (simp add: db_step_def db_ok_def alarms_ok_def batches_ok_def db_keeps_def rows_kept_refl
      alarm_path_refl batch_path_refl asked_onlyD [OF assms])

lemma db_step_alarms:
  assumes "only_alarms w w'"
    and "alarms_ok w \<Longrightarrow> alarms_ok w' \<and> rows_kept alarm_path (alarms w) (alarms w')"
  shows "db_step w w'"
  using assms(2) by (auto simp: db_step_def db_ok_def batches_ok_def db_keeps_def rows_kept_refl
      batch_path_refl only_alarmsD [OF assms(1)])

lemma db_step_batches:
  assumes "only_batches w w'"
    and "batches_ok w \<Longrightarrow> batches_ok w' \<and> rows_kept batch_path (batch_records w) (batch_records w')"
  shows "db_step w w'"
  using assms(2) by (auto simp: db_step_def db_ok_def alarms_ok_def db_keeps_def rows_kept_refl
      alarm_path_refl only_batchesD [OF assms(1)])

lemma db_step_readings:
  assumes "only_readings w w'"
    and "tbl_ok rd_id (plc_readings w) \<Longrightarrow> tbl_ok rd_id (plc_readings w') \<and>
      prefix (rows (plc_readings w)) (rows (plc_readings w'))"
    and "distinct (map dr_id (devices_tbl w)) \<Longrightarrow> distinct (map dr_id (devices_tbl w'))"
  shows "db_step w w'"
  using assms(2,3) by (auto simp: db_step_def db_ok_def alarms_ok_def batches_ok_def db_keeps_def
      rows_kept_refl alarm_path_refl batch_path_refl only_readingsD [OF assms(1)])

section \<open>The operations of the database\<close>

lemma run_alarm_op_kept: "alarms_ok w \<Longrightarrow> rows_kept alarm_path (alarms w) (alarms (run_alarm_op L x w))"
  by (simp add: rows_kept_def run_alarm_op_path)

lemma db_step_alarm_ops [db_steps]:
  "db_step w (snd (raise_alarm L req w))" "db_step w (snd (ack_alarm L i u c w))"
  "db_step w (snd (shelve_alarm L i u m x w))" "db_step w (snd (clear_alarm L i w))"
  "db_step w (unshelve_expired L w)"
  using run_alarm_op_kept [of w L "Raise req"] run_alarm_op_kept [of w L "Ack i u c"]
    run_alarm_op_kept [of w L "Shelve i u m x"] run_alarm_op_kept [of w L "Clear i"]
    run_alarm_op_kept [of w L Unshelve] alarm_op_ok [of w L "Raise req"] alarm_op_ok [of w L "Ack i u c"]
    alarm_op_ok [of w L "Shelve i u m x"] alarm_op_ok [of w L "Clear i"] alarm_op_ok [of w L Unshelve]
  by (simp_all add: db_step_alarms only_alarms_ops)

lemma db_step_monitor [db_steps]: "db_step w (monitor_alarms L dev m w)"
proof (rule db_step_alarms [OF monitor_alarms_frame])
  let ?P = "\<lambda>t. tbl_ok al_id t \<and> list_all alarm_row_ok (rows t) \<and> rows_kept alarm_path (alarms w) t"
  assume "alarms_ok w"
  then have "?P (alarms w)" by (simp add: alarms_ok_def rows_kept_refl alarm_path_refl)
  moreover have "?P (alarms (run_alarm_op L x v))" if "?P (alarms v)" for x v
    using that alarm_op_ok [of v L x] run_alarm_op_kept [of v L x]
      rows_kept_paths(1) unfolding alarms_ok_def by blast
  ultimately have "?P (alarms (monitor_alarms L dev m w))" by (rule monitor_alarms_keeps)
  then show "alarms_ok (monitor_alarms L dev m w) \<and>
      rows_kept alarm_path (alarms w) (alarms (monitor_alarms L dev m w))"
    by (simp add: alarms_ok_def)
qed

lemma get_running_batch_running:
  assumes "fst (get_running_batch dev w) = Some (i, b)"
  shows "\<exists>r \<in> set (rows (batch_records w)). br_batch_id r = b \<and> br_status r = ''running''"
proof -
  have "\<exists>r \<in> set (sql_limit 1 (order_desc br_id (filter (running_on dev) (rows (batch_records w))))).
      br_batch_id r = b"
    using assms by (auto simp: get_running_batch_def Let_def split_beta split: option.splits list.splits)
  with set_sql_limit show ?thesis by (fastforce simp: running_on_def)
qed

text \<open>Only a running batch is finished: its id is unique.\<close>
lemma db_step_finish [db_steps]: "db_step w (finish_running L dev st x w)"
proof (rule db_step_batches [OF only_batches_finish])
  assume ok: "batches_ok w"
  let ?w = "snd (get_running_batch dev w)"
  have same: "batch_records ?w = batch_records w" "batch_steps ?w = batch_steps w"
    by (simp_all add: get_running_batch_def env_defs Let_def)
  then have ok': "batches_ok ?w" using ok by (simp add: batches_ok_def)
  show "batches_ok (finish_running L dev st x w) \<and>
      rows_kept batch_path (batch_records w) (batch_records (finish_running L dev st x w))"
  proof (cases "fst (get_running_batch dev w)")
    case None
    then show ?thesis using ok' same by (simp add: finish_running_def Let_def rows_kept_refl batch_path_refl)
  next
    case (Some ib)
    obtain i b where ib: "ib = (i, b)" by fastforce
    with Some obtain q where q: "q \<in> set (rows (batch_records w))" "br_batch_id q = b" "br_status q = ''running''"
      using get_running_batch_running by blast
    have fin: "finish_running L dev st x w = snd (update_batch_status L b st x ?w)"
      using Some ib by (simp add: finish_running_def)
    have "r = q" if "r \<in> set (rows (batch_records w))" "br_batch_id r = b" for r
      using that q ok by (auto simp: batches_ok_def distinct_map inj_on_def)
    with q(3) have run: "br_status r = ''running''" if "r \<in> set (rows (batch_records w))" "br_batch_id r = b" for r
      using that by blast
    have "batches_ok (finish_running L dev st x w)"
      using batches_ok_step [OF ok', of L "SetStatus b st x"] by (simp add: fin)
    moreover have "rows_kept batch_path (batch_records w) (batch_records (finish_running L dev st x w))"
      unfolding fin update_batch_status_table same
      by (auto simp: batch_path_refl rows_kept_refl intro!: rows_kept_update) (simp_all add: batch_path_def run)
    ultimately show ?thesis ..
  qed
qed

lemma db_step_create_batch [db_steps]: "db_step w (snd (create_batch L b n dev u w))"
proof (rule db_step_batches [OF only_batches_ops(2)])
  assume "batches_ok w"
  then show "batches_ok (snd (create_batch L b n dev u w)) \<and>
      rows_kept batch_path (batch_records w) (batch_records (snd (create_batch L b n dev u w)))"
    using batches_ok_step [of w L "Create b n dev u"]
    by (auto simp: create_batch_table rows_kept_def intro: batch_path_refl)
qed

lemma db_step_track_batch [db_steps]: "db_step w (snd (track_batch L dev m b w))"
  by (auto simp: track_batch_cases track_world_def db_step_refl split: option.split intro: db_steps)

lemma db_step_devices [db_steps]:
  "db_step w (save_device L dev w)" "db_step w (delete_device i w)" "db_step w (save_plc_data L d w)"
proof -
  show "db_step w (save_device L dev w)"
    by (rule db_step_readings [OF only_readings_ops(1)])
      (auto simp: save_device_def sql_def device_columns_def distinct_map_filter split: option.split)
  show "db_step w (delete_device i w)"
    by (rule db_step_readings [OF only_readings_ops(3)])
      (auto simp: delete_device_def sql_def distinct_map_filter split: option.split)
  show "db_step w (save_plc_data L d w)"
    by (rule db_step_readings [OF only_readings_ops(4)])
      (auto simp: save_plc_data_def sql_def reading_ids.insert_ok simp del: tbl_insert_simps split: option.split,
       auto)
qed


lemma db_step_log [db_steps]: "db_step w (log_audit L u n x d t ip w)"
proof -
  have same: "batch_steps (log_audit L u n x d t ip w) = batch_steps w"
    by (simp add: log_audit_def env_defs Let_def split: option.split)
  show ?thesis
    by (auto simp: db_step_def db_ok_def alarms_ok_def batches_ok_def db_keeps_def same
        log_audit_table audit_ids.insert_ok rows_kept_refl alarm_path_refl batch_path_refl
        simp del: tbl_insert_simps) simp_all
qed

lemma db_step_insert_user [db_steps]: "db_step w (snd (insert_user i n h r now w))"
  by (auto simp: insert_user_def sql_def db_step_def db_ok_def alarms_ok_def batches_ok_def
      db_keeps_def rows_kept_refl alarm_path_refl batch_path_refl split: option.split)

lemma db_step_store [db_steps]: "db_step w (snd (snd (store_registers L dev i vs m tx w)))"
proof (induction vs arbitrary: i m tx w)
  case (Cons v vs)
  let ?d = "\<lparr>pd_device_id = dc_id dev, pd_register = dc_register_start dev + of_nat i,
    pd_value = u16_as_f64 v, pd_timestamp = wall w (wall_reads w)\<rparr>"
  have "db_step w (snd (utc_now w))" by (rule db_step_asked) (rule asked_only_ops)
  then have "db_step w (save_plc_data L ?d (w\<lparr>wall_reads := wall_reads w + 1\<rparr>))"
    unfolding utc_now_def snd_conv by (rule db_step_trans) (rule db_step_devices)
  from db_step_trans [OF this Cons.IH] show ?case by (simp add: utc_now_def Let_def)
qed (simp add: db_step_refl)

lemma db_step_process [db_steps]: "db_step w (snd (snd (process_registers L dev vs b tx w)))"
  unfolding process_registers_parts Let_def snd_conv
  by (rule db_step_trans [OF db_step_store db_step_trans [OF db_step_monitor db_step_track_batch]])

lemma create_tables_asked: "create_tables n w = Some w' \<Longrightarrow> asked_only w w'"
proof (induction n arbitrary: w)
  case (Suc n)
  then have "asked_only (w\<lparr>sql_calls := sql_calls w + 1\<rparr>) w'"
    by (auto simp: sql_def split: option.splits)
  then show ?case by (cases w, cases w') (simp add: asked_only_def)
qed simp


lemmas db_step_queries [db_steps] = asked_only_ops [THEN db_step_asked]

text \<open>What the queries and the insertion of a user keep, the seeding of the accounts keeps.\<close>
lemma init_auth_keeps:
  assumes "init_auth_tables L w = Some w'" and "P w" and asked: "\<And>u v. asked_only u v \<Longrightarrow> P u \<Longrightarrow> P v"
    and insert: "\<And>i n h r now u. P u \<Longrightarrow> P (snd (insert_user i n h r now u))"
  shows "P w'"
proof -
  have chain: "sql u = (x, v) \<Longrightarrow> P u \<Longrightarrow> P v" "new_uuid u = (y, v) \<Longrightarrow> P u \<Longrightarrow> P v"
    "utc_now u = (z, v) \<Longrightarrow> P u \<Longrightarrow> P v" "hash_password L p u = (k, v) \<Longrightarrow> P u \<Longrightarrow> P v"
    for u v x y z p k
    by (metis asked_only_ops asked snd_conv)+
  have seed: "seed_user L i n p r now u = Some v \<Longrightarrow> P u \<Longrightarrow> P v" for i n p r now u v
    by (auto simp: seed_user_def split: prod.splits sum.splits intro: chain insert)
  have tables: "create_tables 2 u = Some v \<Longrightarrow> P u \<Longrightarrow> P v" for u v
    by (metis create_tables_asked asked)
  show ?thesis
    using assms(1) by (auto simp: init_auth_tables_def Let_def
      split: option.splits prod.splits sum.splits if_splits)
      (erule chain seed tables | rule insert assms(2))+
qed

lemma db_step_init_auth: "init_auth_tables L w = Some w' \<Longrightarrow> db_step w w'"
  by (erule init_auth_keeps) (blast intro: db_step_refl db_step_asked db_steps db_step_trans)+

lemma init_auth_devices: "init_auth_tables L w = Some w' \<Longrightarrow> devices_tbl w' = devices_tbl w"
  by (erule init_auth_keeps [where P = "\<lambda>v. devices_tbl v = devices_tbl w"])
    (auto simp: asked_onlyD insert_user_def sql_def split: option.split)

section \<open>The handlers\<close>

definition moves :: "app_state \<Rightarrow> app_state \<Rightarrow> bool" where
  "moves a b \<longleftrightarrow> db_step (app_db a) (app_db b)"

lemma moves_refl [simp]: "moves a a"
  by (simp add: moves_def db_step_refl)

lemma moves_trans: "moves a b \<Longrightarrow> moves b c \<Longrightarrow> moves a c"
  unfolding moves_def by (rule db_step_trans)

named_theorems moves_intros

lemma moves_bind [moves_intros]:
  "moves a (snd p) \<Longrightarrow> (\<And>x b. moves a b \<Longrightarrow> moves a (snd (F x b))) \<Longrightarrow>
     moves a (snd (case p of (x, b) \<Rightarrow> F x b))"
  by (cases p) simp

lemma moves_on_db [moves_intros]:
  assumes "moves a b" and "db_step (app_db b) (snd (f (app_db b)))"
  shows "moves a (snd (on_db f b))"
  using assms unfolding moves_def by (auto intro: db_step_trans)

lemma moves_do_db [moves_intros]:
  assumes "moves a b" and "db_step (app_db b) (f (app_db b))"
  shows "moves a (do_db f b)"
  using assms unfolding moves_def by (auto intro: db_step_trans)

lemma moves_registry [moves_intros]:
  "moves a b \<Longrightarrow> moves a (reg_insert i h b)" "moves a b \<Longrightarrow> moves a (reg_remove i b)"
  "moves a b \<Longrightarrow> moves a (abort_task t b)" "moves a b \<Longrightarrow> moves a (snd (start_polling dev b))"
  by (simp_all add: moves_def)

lemma moves_frame [moves_intros]:
  "moves a b \<Longrightarrow> moves a (b\<lparr>login_attempts := x\<rparr>)"
  "moves a b \<Longrightarrow> moves a (clear_failed_login n b)" "moves a b \<Longrightarrow> moves a (register_session i u x' b)"
  "moves a b \<Longrightarrow> moves a (revoke_session i b)" "moves a b \<Longrightarrow> moves a (b\<lparr>sessions := s\<rparr>)"
  by (simp_all add: moves_def clear_failed_login_def register_session_def revoke_session_def)

lemma moves_clock: "clock_only a b \<Longrightarrow> moves a b"
  unfolding moves_def by (rule db_step_asked) (auto simp: clock_only_def asked_only_def)

lemma moves_session [moves_intros]: "moves a b \<Longrightarrow> moves a (snd (session_live c b))"
  by (erule moves_trans) (simp add: session_live_eq moves_clock clock_only_session)

lemma moves_throttle [moves_intros]: "moves a b \<Longrightarrow> moves a (snd (check_login_throttle n b))"
  by (auto simp: check_login_throttle_def Let_def split: option.split intro!: moves_intros db_steps)

lemma moves_failed [moves_intros]: "moves a b \<Longrightarrow> moves a (record_failed_login n b)"
  by (auto simp: record_failed_login_def Let_def split_beta split: option.split intro!: moves_intros db_steps)

lemma moves_audit_as [moves_intros]: "moves a b \<Longrightarrow> moves a (audit_as L c x d t b)"
  by (auto simp: audit_as_def split: option.split intro: moves_intros db_steps)

lemma moves_respond [moves_intros]:
  "moves a (snd x) \<Longrightarrow> moves a (snd (respond f x))" "moves a (snd y) \<Longrightarrow> moves a (snd (download y))"
  by (simp_all add: respond_def download_def)

lemma moves_respond_opt [moves_intros]:
  "(\<And>r b. x = Some (r, b) \<Longrightarrow> moves a b) \<Longrightarrow> moves a (snd (respond_opt f a x))"
  by (auto simp: respond_opt_def respond_def split: option.split)

lemma moves_device [moves_intros]:
  fixes d :: device_env
  shows "\<forall>ch reg val c. moves c (snd (d ch reg val c)) \<Longrightarrow> moves a b \<Longrightarrow> moves a (snd (d ch reg val b))"
  by (blast intro: moves_trans)

lemma moves_add_device_start: "add_device_start L req a = Some (r, b) \<Longrightarrow> moves a b"
  by (auto simp: add_device_start_def Let_def split_beta
      split: if_splits option.splits sum.splits intro!: moves_intros db_steps)

lemma moves_connect_device_start: "connect_device_start L i dev a = Some (r, b) \<Longrightarrow> moves a b"
  by (auto simp: connect_device_start_def Let_def split_beta
      split: if_splits option.splits sum.splits intro!: moves_intros db_steps)

lemma moves_add_device: "add_device L req a = Some (r, b) \<Longrightarrow> moves a b"
  by (auto simp: add_device_def split: if_splits intro: moves_add_device_start)

lemma moves_connect_device: "connect_device L i a = Some (r, b) \<Longrightarrow> moves a b"
  by (auto simp: connect_device_def split: if_splits option.splits intro: moves_connect_device_start)

lemma moves_login: "moves a (snd (login L req a))"
  by (auto simp: login_def Let_def split: sum.split option.split intro!: moves_intros db_steps)

lemma moves_handle:
  assumes "\<forall>ch reg val c. moves c (snd (ev_device e ch reg val c))"
  shows "moves a (snd (handle e h req c a))"
  using assms
  by (cases req) (auto simp: read_handlers write_handlers Let_def moves_login
      moves_add_device moves_connect_device
      split: sum.split option.split bool.split intro!: moves_intros db_steps)

lemma moves_serve:
  assumes "\<forall>ch reg val c. moves c (snd (ev_device e ch reg val c))"
  shows "moves a (snd (serve e h req a))"
proof (cases rule: serve_cases [of req e h a])
  case public
  then show ?thesis using moves_handle [OF assms] by simp
next
  case (run role c b)
  then show ?thesis using moves_trans [OF moves_clock moves_handle [OF assms]] by simp
next
  case refused
  then show ?thesis using moves_clock by blast
qed


section \<open>The registry\<close>

lemma registry_ok_same: "same_devices a b \<Longrightarrow> registry_ok b = registry_ok a"
  by (simp add: same_devices_def registry_ok_def reg_get_def)

lemma registry_ok_stop: "registry_ok a \<Longrightarrow> t < length (app_tasks a) \<Longrightarrow> registry_ok (abort_task t a)"
  by (fastforce simp: registry_ok_def)

lemma registry_ok_device:
  fixes d :: device_env
  assumes "\<forall>ch reg val c. registry_ok c \<longrightarrow> registry_ok (snd (d ch reg val c))" and "registry_ok a"
  shows "registry_ok (snd (post_write L from_slice d claims bytes a))"
proof -
  have audit: "registry_ok (audit_as L c x dev t b) = registry_ok b" for c x dev t b
    by (simp add: audit_as_def split: option.split)
  have "registry_ok (snd (d ch reg val a))" for ch reg val using assms by blast
  then have "d ch reg val a = (ans, b) \<Longrightarrow> registry_ok b" for ch reg val ans b by (metis snd_conv)
  with assms(2) show ?thesis
    by (auto simp: post_write_def audit Let_def split: option.split sum.split prod.split)
qed

lemma handle_registry_ok:
  assumes "\<forall>ch reg val c. registry_ok c \<longrightarrow> registry_ok (snd (ev_device e ch reg val c))"
    and "registry_ok a"
  shows "registry_ok (snd (handle e h req c a))"
proof (cases "Devices \<in> parts_of req \<or> (\<exists>b. req = PostWrite b)")
  case True
  then show ?thesis
  proof (cases req)
    case (AddDevice x)
    then show ?thesis using run_registry_op_ok [OF assms(2), of "ev_libs e" "Add x"] assms(2)
      by (simp add: respond_opt_def respond_def split: option.splits prod.splits)
  next
    case (RemoveDevice i)
    then show ?thesis using run_registry_op_ok [OF assms(2), of "ev_libs e" "Remove i"]
      by (simp add: respond_def)
  next
    case (ConnectDevice i)
    then show ?thesis using run_registry_op_ok [OF assms(2), of "ev_libs e" "Connect i"] assms(2)
      by (simp add: respond_opt_def respond_def split: option.splits prod.splits)
  next
    case (DisconnectDevice i)
    then show ?thesis using run_registry_op_ok [OF assms(2), of "ev_libs e" "Disconnect i"]
      by (simp add: respond_def)
  qed (use assms in \<open>simp_all add: respond_def registry_ok_device\<close>)
next
  case False
  let ?e = "e\<lparr>ev_device := \<lambda>_ _ _ s. (None, s)\<rparr>"
  have "only (parts_of req) a (snd (handle ?e h req c a))"
    by (rule handle_only) (simp add: answers_alone_def)
  with False have "same_devices a (snd (handle ?e h req c a))" by (simp add: only_def)
  with registry_ok_same assms(2) False show ?thesis by (simp add: handle_device)
qed

lemma serve_registry_ok:
  assumes "\<forall>ch reg val c. registry_ok c \<longrightarrow> registry_ok (snd (ev_device e ch reg val c))"
    and "registry_ok a"
  shows "registry_ok (snd (serve e h req a))"
proof -
  have clock: "clock_only a b \<Longrightarrow> registry_ok b" for b
    using assms(2) registry_ok_same only_clock [of a b "{}"] by (auto simp: only_def)
  show ?thesis
    by (cases rule: serve_cases [of req e h a])
      (use handle_registry_ok [OF assms(1)] assms(2) clock in \<open>simp_all\<close>)
qed

section \<open>Start-up\<close>

lemma start_configured_db: "start_configured L devs a = Some b \<Longrightarrow> app_db b = app_db a"
  by (induction devs arbitrary: a) (fastforce simp: split_beta split: option.splits sum.splits)+

lemma restore_devices_db: "restore_devices L devs a = Some b \<Longrightarrow> app_db b = app_db a"
  by (induction devs arbitrary: a)
    (fastforce simp: split_beta split: option.splits sum.splits if_splits)+

lemma db_step_start:
  assumes "start_server L config w = Some a" shows "db_step w (app_db a)"
proof -
  obtain u v b where u: "init_db_with_pool w = Some u" and v: "init_auth_tables L u = Some v"
    and b: "start_configured L (ac_devices config) (app_new v config) = Some b"
    and a: "restore_devices L (fst (load_devices L (app_db b))) (snd (on_db (load_devices L) b)) = Some a"
    using assms by (auto simp: start_server_def start_devices_def split_beta split: option.splits)
  have "db_step w u" using u create_tables_asked by (auto simp: init_db_with_pool_def intro: db_step_asked)
  also have "db_step u v" using v by (rule db_step_init_auth)
  finally have "db_step w (app_db b)" using start_configured_db [OF b] by (simp add: app_new_def)
  moreover have "db_step (app_db b) (app_db a)"
    using restore_devices_db [OF a] by (simp add: db_steps)
  ultimately show ?thesis by (rule db_step_trans)
qed


section \<open>The running system\<close>

text \<open>
  What may happen between two states, whoever acts: a request is served, while whose device answers
  the system may go on; a polling task that runs handles the registers that its client read, with its batch
  state; a polling task panics; a feed reads the clock to check its token; the server stops and
  starts again on its database. With \<open>overlap\<close>, the second half of an add or of a connect may also come
  late, when other requests have run since its check.
\<close>
inductive reaches :: "bool \<Rightarrow> ('n, 'w) env \<Rightarrow> app_state \<Rightarrow> app_state \<Rightarrow> bool" for overlap e where
  stays: "reaches overlap e a a"
| serves: "reaches overlap e a b \<Longrightarrow>
    \<forall>ch reg val c. reaches overlap e c (snd (device ch reg val c)) \<Longrightarrow>
    reaches overlap e a (snd (serve (e\<lparr>ev_device := device\<rparr>) h req b))"
| polls: "reaches overlap e a b \<Longrightarrow> t < length (app_tasks b) \<Longrightarrow> t \<notin> app_stopped b \<Longrightarrow>
    reaches overlap e a (do_db (\<lambda>w. snd (snd
      (process_registers (ev_libs e) (app_tasks b ! t) registers track tx w))) b)"
| panics: "reaches overlap e a b \<Longrightarrow> t < length (app_tasks b) \<Longrightarrow>
    reaches overlap e a (abort_task t b)"
| reads_clock: "reaches overlap e a b \<Longrightarrow> clock_only b c \<Longrightarrow> reaches overlap e a c"
| restarts: "reaches overlap e a b \<Longrightarrow> start_server (ev_libs e) config (app_db b) = Some c \<Longrightarrow>
    distinct (map dc_id (ac_devices config)) \<Longrightarrow> reaches overlap e a c"
| adds_late: "reaches overlap e a b \<Longrightarrow> overlap \<Longrightarrow>
    add_device_start (ev_libs e) add b = Some (r, c) \<Longrightarrow> reaches overlap e a c"
| connects_late: "reaches overlap e a b \<Longrightarrow> overlap \<Longrightarrow>
    connect_device_start (ev_libs e) i dev b = Some (r', c) \<Longrightarrow> reaches overlap e a c"

lemma reaches_moves: "reaches overlap e a b \<Longrightarrow> moves a b"
proof (induction rule: reaches.induct)
  case (serves a b device h req)
  then have "moves b (snd (serve (e\<lparr>ev_device := device\<rparr>) h req b))"
    using serves.IH(2) by (intro moves_serve) simp
  with serves.IH(1) show ?case by (rule moves_trans)
next
  case (restarts a b config c)
  then show ?case using db_step_start by (auto simp: moves_def intro: db_step_trans)
qed (auto intro: moves_intros db_steps moves_trans moves_clock moves_add_device_start
    moves_connect_device_start)

lemma reaches_registry_ok: "reaches overlap e a b \<Longrightarrow> \<not> overlap \<Longrightarrow> registry_ok a \<longrightarrow> registry_ok b"
proof (induction rule: reaches.induct)
  case (serves a b device h req)
  then show ?case
    using serve_registry_ok [of "e\<lparr>ev_device := device\<rparr>" b h req] by simp
next
  case (reads_clock a b c)
  then show ?case using registry_ok_same only_clock [of b c "{}"] by (auto simp: only_def)
next
  case (restarts a b config c)
  then show ?case using start_server_ok by blast
qed (simp_all add: registry_ok_stop)


lemma db_ok_fresh: "db_ok (fresh_world f c m u s)"
  by (simp add: db_ok_def alarms_ok_def batches_ok_def fresh_world_def) (simp add: empty_table_def)

lemma sample_server_start:
  "\<exists>a. start_server sample_libs sample_config sample_world = Some a \<and>
     registered a ''plc-01'' \<noteq> None \<and> app_stopped a = {}"
proof -
  let ?w = "sample_world\<lparr>sql_calls := sql_calls sample_world + 5\<rparr>"
  have five: "init_db_with_pool sample_world = Some ?w"
    by (simp add: init_db_with_pool_def eval_nat_numeral sql_def)
  obtain v where v: "init_auth_tables sample_libs ?w = Some v" using sample_init_auth [of ?w] by auto
  have devs: "ac_devices sample_config = [sample_device]"
    by (simp add: sample_config_def config_of_raw_def sample_raw_def)
  have cl: "new_client sample_libs sample_device = Some (Inr ())"
    by (simp add: new_client_def sample_device_def sample_libs_def)
  have "devices_tbl v = []" using init_auth_devices [OF v] by simp
  then have "fst (load_devices sample_libs v) = []"
    by (simp add: load_devices_def env_defs split: option.split)
  then obtain a where a: "start_devices sample_libs sample_config (app_new v sample_config) = Some a"
    by (simp add: start_devices_def split_beta devs cl app_new_def)
  have "registered a ''plc-01'' \<noteq> None \<and> app_stopped a = {}"
    using start_devices_registered [OF a, of "''plc-01''"] by (simp add: devs) (simp add: sample_device_def)
  with a five v show ?thesis by (simp add: start_server_def)
qed




end
