(* ===== verification/Startup.thy ===== *)
theory Startup
  imports System
begin

text \<open>
  The start of the process: \<open>main\<close> of \<open>server/src/main.rs\<close> from the configuration file to the listening
  socket, and \<open>init_db\<close> of \<open>db.rs\<close>. Files, the database connection, certificates and sockets are the
  parameters of \<open>process_env\<close>. CORS and logging have no effect here.
\<close>

section \<open>The environment of the process\<close>

text \<open>
  Reading and parsing the configuration file, opening a database, loading a certificate, listening on
  an address with and without TLS.
\<close>
record process_env =
  pe_read :: "string \<Rightarrow> string result"
  pe_toml :: "string \<Rightarrow> raw_config result"
  pe_open :: "string \<Rightarrow> world result"
  pe_pem :: "string \<Rightarrow> string \<Rightarrow> unit result"
  pe_bind :: "string \<Rightarrow> unit result"
  pe_bind_tls :: "string \<Rightarrow> unit result"

text \<open>A panic, \<open>exit(1)\<close>, or a server on an address, with TLS or not.\<close>
datatype outcome = Panics | Exits | Serving bool string app_state

section \<open>The main function\<close>

definition db_url :: "string \<Rightarrow> string" where
  "db_url path = ''sqlite:'' @ path @ ''?mode=rwc''"

definition init_db :: "process_env \<Rightarrow> string \<Rightarrow> world option" where
  "init_db E path = (case pe_open E (db_url path) of Inl e \<Rightarrow> None | Inr w \<Rightarrow> init_db_with_pool w)"

definition bind_addr :: "app_config \<Rightarrow> string" where
  "bind_addr config = sc_host (ac_server config) @ '':'' @ show_u16 (sc_port (ac_server config))"

definition listen :: "process_env \<Rightarrow> libs \<Rightarrow> app_config \<Rightarrow> app_state \<Rightarrow> outcome" where
  "listen E L config a =
     (case (sc_tls_cert (ac_server config), sc_tls_key (ac_server config)) of
        (Some cert_path, Some key_path) \<Rightarrow>
          (case pe_pem E cert_path key_path of
             Inl e \<Rightarrow> Exits
           | Inr _ \<Rightarrow>
              if \<not> parse_socket_addr L (bind_addr config) then Panics
              else (case pe_bind_tls E (bind_addr config) of
                 Inl e \<Rightarrow> Panics | Inr _ \<Rightarrow> Serving True (bind_addr config) a))
      | _ \<Rightarrow>
          (case pe_bind E (bind_addr config) of
             Inl e \<Rightarrow> Exits | Inr _ \<Rightarrow> Serving False (bind_addr config) a))"

definition main_server :: "process_env \<Rightarrow> libs \<Rightarrow> outcome" where
  "main_server E L =
     (case load_config (pe_read E) (pe_toml E) ''config.toml'' of
        Inl e \<Rightarrow> Panics
      | Inr (config, warned) \<Rightarrow>
       (case init_db E (ac_database_path config) of
          None \<Rightarrow> Panics
        | Some w \<Rightarrow>
         (case init_auth_tables L w of
            None \<Rightarrow> Panics
          | Some w \<Rightarrow>
           (case start_devices L config (app_new w config) of
              None \<Rightarrow> Panics
            | Some a \<Rightarrow> listen E L config a))))"

lemma main_server_parts:
  "main_server E L =
     (case load_config (pe_read E) (pe_toml E) ''config.toml'' of
        Inl e \<Rightarrow> Panics
      | Inr (config, warned) \<Rightarrow>
       (case pe_open E (db_url (ac_database_path config)) of
          Inl e \<Rightarrow> Panics
        | Inr w \<Rightarrow> (case start_server L config w of
            None \<Rightarrow> Panics | Some a \<Rightarrow> listen E L config a)))"
  by (simp add: main_server_def init_db_def start_server_def split: sum.split prod.split option.split)

lemma listen_serving:
  "listen E L config a = Serving tls addr b \<Longrightarrow> b = a \<and> addr = bind_addr config \<and>
     tls = (sc_tls_cert (ac_server config) \<noteq> None \<and> sc_tls_key (ac_server config) \<noteq> None)"
  by (auto simp: listen_def split: option.splits sum.splits if_splits)

lemma start_configured_clients:
  "start_configured L devs a = Some b \<Longrightarrow> dev \<in> set devs \<Longrightarrow> new_client L dev \<noteq> None"
  by (induction L devs a rule: start_configured.induct)
    (auto simp: Let_def split: option.splits sum.splits prod.splits)

lemma secret_kept [simp]:
  "jwt_secret (reg_insert i h a) = jwt_secret a" "jwt_secret (snd (start_polling dev a)) = jwt_secret a"
  by (simp_all add: reg_insert_def start_polling_def spawn_polling_def)

lemma start_configured_secret: "start_configured L devs a = Some b \<Longrightarrow> jwt_secret b = jwt_secret a"
  by (induction devs arbitrary: a) (auto simp: Let_def split_beta split: option.splits sum.splits)

lemma restore_devices_secret: "restore_devices L devs a = Some b \<Longrightarrow> jwt_secret b = jwt_secret a"
  by (induction devs arbitrary: a)
    (fastforce simp: Let_def split_beta split: option.splits sum.splits if_splits)+

lemma start_server_frame:
  assumes "start_server L config w = Some a"
  shows "jwt_secret a = sc_jwt_secret (ac_server config)"
    "dev \<in> set (ac_devices config) \<Longrightarrow> new_client L dev \<noteq> None"
proof -
  obtain v b where b: "start_configured L (ac_devices config) (app_new v config) = Some b"
    and r: "restore_devices L (fst (load_devices L (app_db b))) (snd (on_db (load_devices L) b)) = Some a"
    using assms by (auto simp: start_server_def start_devices_def split_beta split: option.splits)
  show "jwt_secret a = sc_jwt_secret (ac_server config)"
    using start_configured_secret [OF b] restore_devices_secret [OF r] by (simp add: app_new_def)
  show "dev \<in> set (ac_devices config) \<Longrightarrow> new_client L dev \<noteq> None"
    using start_configured_clients [OF b] .
qed

text \<open>
  C37: a server that listens is set up. When \<open>main\<close> gets as far as serving, the configuration was read and
  its signing secret, the one in use, has at least 32 characters; the database is open; it listens on the
  configured host and port, with TLS exactly when a certificate and a key are configured both; the
  address of every configured Modbus device can be parsed; and the state is well-formed: the tables if
  they were before, the registry if the configured ids are distinct.
\<close>
theorem serving_is_set_up:
  assumes "main_server E L = Serving tls addr a"
  shows "\<exists>config warned w. load_config (pe_read E) (pe_toml E) ''config.toml'' = Inr (config, warned) \<and>
     jwt_secret a = sc_jwt_secret (ac_server config) \<and> 32 \<le> length (jwt_secret a) \<and>
     pe_open E (db_url (ac_database_path config)) = Inr w \<and> addr = bind_addr config \<and>
     tls = (sc_tls_cert (ac_server config) \<noteq> None \<and> sc_tls_key (ac_server config) \<noteq> None) \<and>
     (\<forall>dev \<in> set (ac_devices config). new_client L dev \<noteq> None) \<and>
     (db_ok w \<longrightarrow> db_ok (app_db a)) \<and>
     (distinct (map dc_id (ac_devices config)) \<longrightarrow> registry_ok a)"
proof -
  obtain config warned w where c: "load_config (pe_read E) (pe_toml E) ''config.toml'' = Inr (config, warned)"
    and w: "pe_open E (db_url (ac_database_path config)) = Inr w"
    and a: "start_server L config w = Some a" and l: "listen E L config a = Serving tls addr a"
    using assms listen_serving by (fastforce simp: main_server_parts split: sum.splits prod.splits option.splits)
  have "32 \<le> length (sc_jwt_secret (ac_server config))"
    using c by (auto simp: load_config_def Let_def split: sum.splits if_splits)
  moreover have "db_ok w \<Longrightarrow> db_ok (app_db a)" using db_step_start [OF a] by (simp add: db_step_def)
  ultimately show ?thesis
    using c w listen_serving [OF l] start_server_frame [OF a] start_server_ok [OF a] by auto
qed

definition sample_env_of :: "raw_config \<Rightarrow> process_env" where
  "sample_env_of raw = \<lparr>pe_read = (\<lambda>_. Inr ''toml''), pe_toml = (\<lambda>_. Inr raw),
     pe_open = (\<lambda>_. Inr sample_world), pe_pem = (\<lambda>_ _. Inr ()), pe_bind = (\<lambda>_. Inr ()),
     pe_bind_tls = (\<lambda>_. Inr ())\<rparr>"

lemma sample_main:
  "\<exists>a. main_server (sample_env_of sample_raw) sample_libs = Serving False ''0.0.0.0:3000'' a"
proof -
  obtain a where a: "start_server sample_libs sample_config sample_world = Some a"
    using sample_server_start by blast
  have "load_config (\<lambda>_. Inr ''toml'') (\<lambda>_. Inr sample_raw) ''config.toml'' = Inr (sample_config, True)"
    by (simp add: load_config_def sample_config_def) code_simp
  moreover have "listen (sample_env_of sample_raw) sample_libs sample_config a = Serving False ''0.0.0.0:3000'' a"
    by (simp add: listen_def sample_env_of_def sample_config_def config_of_raw_def sample_raw_def bind_addr_def) code_simp
  ultimately show ?thesis using a by (simp add: main_server_parts sample_env_of_def)
qed

theorem serving_is_set_up_witness:
  "\<exists>a. main_server (sample_env_of sample_raw) sample_libs = Serving False ''0.0.0.0:3000'' a \<and>
     32 \<le> length (jwt_secret a)"
proof -
  obtain a where a: "main_server (sample_env_of sample_raw) sample_libs = Serving False ''0.0.0.0:3000'' a"
    using sample_main by blast
  from serving_is_set_up [OF this] a show ?thesis by blast
qed

text \<open>
  TLS only works with a numeric host. The plain server listens on any address the system can resolve; with
  TLS the address is parsed as a socket address first, and a host name such as \<open>localhost\<close> makes the
  server panic after its polling tasks have been started. With only one of certificate and key the server
  runs, without TLS.
\<close>
theorem tls_needs_numeric_host:
  assumes "sc_tls_cert (ac_server config) = Some cert" and "sc_tls_key (ac_server config) = Some key"
    and "\<not> parse_socket_addr L (bind_addr config)" and "pe_bind E (bind_addr config) = Inr ()"
  shows "listen E L config a \<in> {Panics, Exits} \<and>
    listen E L (config\<lparr>ac_server := (ac_server config)\<lparr>sc_tls_key := None\<rparr>\<rparr>) a =
      Serving False (bind_addr config) a"
  using assms by (auto simp: listen_def bind_addr_def split: sum.split)

theorem tls_needs_numeric_host_witness:
  "listen (sample_env_of sample_raw) (sample_libs\<lparr>parse_socket_addr := (\<lambda>_. False)\<rparr>)
     (sample_config\<lparr>ac_server := (ac_server sample_config)\<lparr>sc_host := ''localhost'',
        sc_tls_cert := Some ''cert.pem'', sc_tls_key := Some ''key.pem''\<rparr>\<rparr>) sample_app \<in> {Panics, Exits}"
proof -
  let ?c = "sample_config\<lparr>ac_server := (ac_server sample_config)\<lparr>sc_host := ''localhost'',
        sc_tls_cert := Some ''cert.pem'', sc_tls_key := Some ''key.pem''\<rparr>\<rparr>"
  have "pe_bind (sample_env_of sample_raw) (bind_addr ?c) = Inr ()" by (simp add: sample_env_of_def)
  then show ?thesis
    using tls_needs_numeric_host [of ?c "''cert.pem''" "''key.pem''" "sample_libs\<lparr>parse_socket_addr := (\<lambda>_. False)\<rparr>"
        "sample_env_of sample_raw" sample_app] by simp
qed

end
