(* ===== verification/Hub.thy ===== *)
theory Hub
  imports System
begin

text \<open>
  Requests and device tasks side by side: the write handler of \<open>server/src/routes.rs\<close> and the device
  handlers beside it, the registry's lock and the write channels of \<open>server/src/state.rs\<close>, and the
  \<open>select!\<close> loop of \<open>server/src/protocol.rs\<close> that takes the commands out of them. In the other
  theories a request is one step; here a write request goes through its stages, and everything else
  happens between them. \<open>Writes\<close> has the properties.

  What the model uses of tokio: an \<open>mpsc\<close> channel of 32 places is a list, whose sender waits while it is
  full and which ends with the task that receives; a \<open>oneshot\<close> channel is empty, answered or dropped;
  \<open>RwLock\<close> is fair: a queue in order of arrival, with readers side by side and writers alone. What it
  uses of hyper: the handler of a request whose client has gone may be dropped where it waits.
\<close>

section \<open>A write request in its parts\<close>

text \<open>Reading the body, before anything is locked.\<close>
definition write_body ::
    "(string \<Rightarrow> write_request result) \<Rightarrow> string option \<Rightarrow> string api_response + write_request" where
  "write_body from_slice bytes =
     (case bytes of
        None \<Rightarrow> Inl (api_err ''Invalid request body'')
      | Some bytes \<Rightarrow>
       (case from_slice bytes of
          Inl e \<Rightarrow> Inl (api_err (''Invalid JSON: '' @ e)) | Inr req \<Rightarrow> Inr req))"

text \<open>The checks under the registry's read lock: the channel to send to, or the refusal.\<close>
definition write_target :: "write_request \<Rightarrow> app_state \<Rightarrow> string api_response + nat" where
  "write_target req a =
     (case reg_get (wr_device_id req) a of
        None \<Rightarrow> Inl (api_err (''Unknown device: '' @ wr_device_id req))
      | Some h \<Rightarrow>
          if wr_register req \<notin> set (dc_writable (dh_config h))
          then Inl (api_err (''Register '' @ show_u16 (wr_register req) @ '' is not writable on '' @
            quoted (wr_device_id req)))
          else Inr (dh_write_tx h))"

definition write_closed :: "string api_response" where
  "write_closed = api_err (''Failed to queue write: '' @ ''channel closed'')"

text \<open>After the answer of the device task: \<open>None\<close> when the answer channel is dropped.\<close>
definition write_finish ::
    "libs \<Rightarrow> claims option \<Rightarrow> write_request \<Rightarrow> unit result option \<Rightarrow> app_state \<Rightarrow>
     string api_response \<times> app_state" where
  "write_finish L claims req answer a =
     (case answer of
        Some (Inr _) \<Rightarrow>
          (let a = audit_as L claims ''write_register'' (Some (wr_device_id req))
                 (write_details L req) a
           in (api_ok (''['' @ wr_device_id req @ ''] Register '' @ show_u16 (wr_register req) @
                 '' = '' @ show_u16 (wr_value req)), a))
      | Some (Inl e) \<Rightarrow> (api_err (''Write failed: '' @ e), a)
      | None \<Rightarrow> (api_err ''Write channel dropped'', a))"

lemma post_write_parts:
  "post_write L from_slice device claims bytes a =
     (case write_body from_slice bytes of
        Inl r \<Rightarrow> (r, a)
      | Inr req \<Rightarrow>
       (case write_target req a of
          Inl r \<Rightarrow> (r, a)
        | Inr ch \<Rightarrow>
            if is_finished a ch then (write_closed, a)
            else (case device ch (wr_register req) (wr_value req) a of
               (answer, a) \<Rightarrow> write_finish L claims req answer a)))"
  by (simp add: post_write_def write_body_def write_target_def write_finish_def write_closed_def
      split: option.split sum.split prod.split)

section \<open>Registry requests in their parts\<close>

text \<open>
  Adding and connecting first look the device up under the read lock, then start the polling task,
  and only then wait for the write lock to enter the task into the registry. The other requests use
  the lock once.
\<close>
datatype registry_check = CheckAdd add_device_request | CheckConnect string

datatype registry_change =
  InsertHandle device_config device_handle | ReplaceTask string device_handle
| DropHandle string | StopTask string

definition started :: "libs \<Rightarrow> device_config \<Rightarrow> (device_handle \<Rightarrow> registry_change) \<Rightarrow> app_state \<Rightarrow>
    registry_change option \<times> app_state" where
  "started L dev mk a =
     (case new_client L dev of
        Some (Inr _) \<Rightarrow> (let (h, a) = start_polling dev a in (Some (mk h), a))
      | _ \<Rightarrow> (None, a))"

fun run_check :: "libs \<Rightarrow> registry_check \<Rightarrow> app_state \<Rightarrow> registry_change option \<times> app_state" where
  "run_check L (CheckAdd req) a =
     (if reg_get (ar_id req) a \<noteq> None then (None, a)
      else started L (config_of_request req) (InsertHandle (config_of_request req)) a)"
| "run_check L (CheckConnect i) a =
     (case reg_get i a of
        None \<Rightarrow> (None, a)
      | Some h \<Rightarrow> if \<not> is_finished a (dh_task h) then (None, a)
          else started L (dh_config h) (ReplaceTask i) a)"

fun run_change :: "registry_change \<Rightarrow> app_state \<Rightarrow> app_state" where
  "run_change (InsertHandle dev h) a = reg_insert (dc_id dev) h a"
| "run_change (ReplaceTask i h) a =
     (case reg_get i a of None \<Rightarrow> a
      | Some h' \<Rightarrow> reg_insert i (h'\<lparr>dh_task := dh_task h, dh_write_tx := dh_write_tx h\<rparr>) a)"
| "run_change (DropHandle i) a = snd (remove_device i a)"
| "run_change (StopTask i) a = snd (disconnect_device i a)"

text \<open>A device that was added is stored in the database after the lock has been given back.\<close>
fun to_save :: "registry_change \<Rightarrow> device_config option" where
  "to_save (InsertHandle dev h) = Some dev" | "to_save x = None"

definition run_save :: "libs \<Rightarrow> device_config option \<Rightarrow> app_state \<Rightarrow> app_state" where
  "run_save L dev a = (case dev of None \<Rightarrow> a | Some dev \<Rightarrow> do_db (save_device L dev) a)"

text \<open>With nothing in between, the parts are the whole handlers.\<close>
lemma registry_parts:
  "run_registry_op L (Add req) a = (case run_check L (CheckAdd req) a of
     (None, b) \<Rightarrow> b | (Some x, b) \<Rightarrow> run_save L (to_save x) (run_change x b))"
  "run_registry_op L (Connect i) a = (case run_check L (CheckConnect i) a of
     (None, b) \<Rightarrow> b | (Some x, b) \<Rightarrow> run_save L (to_save x) (run_change x b))"
  by (auto simp: add_device_def add_device_start_def connect_device_def run_save_def
      connect_device_start_def started_def Let_def split_beta split: option.split sum.split)

section \<open>The state\<close>

text \<open>
  A command in a write channel; \<open>wc_response\<close> is the request whose answer channel it carries. An
  answer channel ends with a reply, or by being dropped.
\<close>
record write_command =
  wc_register :: u16
  wc_value :: u16
  wc_response :: nat

definition command :: "write_request \<Rightarrow> nat \<Rightarrow> write_command" where
  "command req i = \<lparr>wc_register = wr_register req, wc_value = wr_value req, wc_response = i\<rparr>"

lemma command_simps [simp]:
  "wc_response (command req i) = i" "wc_register (command req i) = wr_register req"
  "wc_value (command req i) = wr_value req"
  by (simp_all add: command_def)

datatype oneshot = Replied "unit result" | Dropped

text \<open>
  How far a write request is: waiting for the registry's lock; holding its read lock and waiting for
  a place in the channel; waiting for the answer; answered; or abandoned, when its client has gone and
  the handler was dropped.
\<close>
datatype progress = Locking | Sending nat | Awaiting | Finished "string api_response" | Abandoned

text \<open>Who waits for the registry's lock; it is handed out in order of arrival.\<close>
datatype waiter = WriteReq nat | ListReq nat | CheckReq nat registry_check | ChangeReq nat registry_change

record 'c plant =
  pn_ops :: "device_config \<Rightarrow> 'c plc_ops"
  pn_client :: "device_config \<Rightarrow> 'c"

record 'c hub =
  hb_app :: app_state
  hb_tasks :: "'c task list"
  hb_chan :: "nat \<Rightarrow> write_command list"
  hb_oneshot :: "nat \<rightharpoonup> oneshot"
  hb_writes :: "nat \<rightharpoonup> claims option \<times> write_request"
  hb_prog :: "nat \<rightharpoonup> progress"
  hb_lock :: "waiter list"
  hb_asked :: "nat set"
  hb_answered :: "nat set"
  hb_saving :: "nat \<rightharpoonup> device_config"
  hb_log :: "(nat \<times> write_command \<times> unit result) list"

definition CHANNEL_CAPACITY :: nat where "CHANNEL_CAPACITY = 32"

text \<open>The tasks of a state that \<open>ts\<close> does not hold yet, each with a new client.\<close>
definition more_tasks :: "'c plant \<Rightarrow> app_state \<Rightarrow> 'c task list \<Rightarrow> 'c task list" where
  "more_tasks P a ts = ts @ map (\<lambda>dev. start_task (pn_client P dev) (app_db a))
     (drop (length ts) (app_tasks a))"

definition hub_start :: "'c plant \<Rightarrow> app_state \<Rightarrow> 'c hub" where
  "hub_start P a = \<lparr>hb_app = a, hb_tasks = more_tasks P a [], hb_chan = (\<lambda>_. []),
     hb_oneshot = Map.empty, hb_writes = Map.empty, hb_prog = Map.empty, hb_lock = [], hb_asked = {},
     hb_answered = {}, hb_saving = Map.empty, hb_log = []\<rparr>"

text \<open>
  The shared state after a registry operation: new tasks begin, and the channels of the tasks that
  have been stopped are gone, with the answer channels of the commands in them.
\<close>
definition with_app :: "'c plant \<Rightarrow> app_state \<Rightarrow> 'c hub \<Rightarrow> 'c hub" where
  "with_app P a s = s\<lparr>hb_app := a, hb_tasks := more_tasks P a (hb_tasks s),
     hb_chan := (\<lambda>t. if t \<in> app_stopped a then [] else hb_chan s t),
     hb_oneshot := (\<lambda>i. if \<exists>t \<in> app_stopped a. i \<in> wc_response ` set (hb_chan s t)
       then Some Dropped else hb_oneshot s i)\<rparr>"

text \<open>A step of a task on the database as it is.\<close>
definition run_task :: "nat \<Rightarrow> ('c task \<Rightarrow> 'c task) \<Rightarrow> 'c hub \<Rightarrow> 'c hub" where
  "run_task t f s =
     (let k = f ((hb_tasks s ! t)\<lparr>tk_world := app_db (hb_app s)\<rparr>)
      in s\<lparr>hb_tasks := (hb_tasks s)[t := k], hb_app := (hb_app s)\<lparr>app_db := tk_world k\<rparr>\<rparr>)"

definition running :: "nat \<Rightarrow> 'c hub \<Rightarrow> bool" where
  "running t s \<longleftrightarrow> t < length (hb_tasks s) \<and> t \<notin> app_stopped (hb_app s)"

definition phase_of :: "nat \<Rightarrow> 'c hub \<Rightarrow> phase" where
  "phase_of t s = tk_phase (hb_tasks s ! t)"

text \<open>The requests that hold the registry's read lock.\<close>
definition readers :: "'c hub \<Rightarrow> nat set" where
  "readers s = {i. \<exists>ch. hb_prog s i = Some (Sending ch)}"

definition set_progress :: "nat \<Rightarrow> progress \<Rightarrow> 'c hub \<Rightarrow> 'c hub" where
  "set_progress i x s = s\<lparr>hb_prog := (hb_prog s)(i \<mapsto> x)\<rparr>"

section \<open>Steps\<close>

datatype hub_event = Serves | Asks nat | Granted | Saves nat | Placed nat | Refused nat | Answers nat | Leaves nat
  | Takes nat | Polls nat | Attempts nat | Resumes nat | Dies nat

text \<open>
  The events: a request arrives and queues for the lock; the first in the queue gets it; a command
  gets its place in the channel, or finds it closed; a handler goes on with the answer; a client goes
  away, which drops its handler; any other request is served as a whole (\<open>serves\<close>, see
  \<open>other_requests_serve\<close>); and the steps of the polling tasks. Readers get the lock beside other readers, a
  writer only alone, and it holds the lock for one step.
\<close>
inductive hub_step :: "libs \<Rightarrow> 'c plant \<Rightarrow> 'c hub \<Rightarrow> hub_event \<Rightarrow> 'c hub \<Rightarrow> bool" for L P where
  asks_write: "hb_prog s i = None \<Longrightarrow> hub_step L P s (Asks i) (set_progress i Locking
     (s\<lparr>hb_writes := (hb_writes s)(i \<mapsto> (c, req)), hb_lock := hb_lock s @ [WriteReq i]\<rparr>))"
| asks_registry: "i \<notin> hb_asked s \<Longrightarrow> w = ListReq i \<or> w = CheckReq i k \<or>
     w = ChangeReq i (DropHandle d) \<or> w = ChangeReq i (StopTask d) \<Longrightarrow> hub_step L P s (Asks i)
     (s\<lparr>hb_asked := insert i (hb_asked s), hb_lock := hb_lock s @ [w]\<rparr>)"
| grants_write: "hb_lock s = WriteReq i # ws \<Longrightarrow> hb_prog s i = Some Locking \<Longrightarrow> hb_writes s i = Some (c, req) \<Longrightarrow>
     hub_step L P s Granted (set_progress i (case write_target req (hb_app s) of
        Inl r \<Rightarrow> Finished r | Inr ch \<Rightarrow> Sending ch) (s\<lparr>hb_lock := ws\<rparr>))"
| grants_list: "hb_lock s = ListReq i # ws \<Longrightarrow>
     hub_step L P s Granted (s\<lparr>hb_lock := ws, hb_answered := insert i (hb_answered s)\<rparr>)"
| grants_check: "hb_lock s = CheckReq i k # ws \<Longrightarrow> run_check L k (hb_app s) = (None, a) \<Longrightarrow>
     hub_step L P s Granted
       (with_app P a (s\<lparr>hb_lock := ws, hb_answered := insert i (hb_answered s)\<rparr>))"
| grants_start: "hb_lock s = CheckReq i k # ws \<Longrightarrow> run_check L k (hb_app s) = (Some x, a) \<Longrightarrow>
     hub_step L P s Granted (with_app P a (s\<lparr>hb_lock := ws @ [ChangeReq i x]\<rparr>))"
| grants_change: "hb_lock s = ChangeReq i x # ws \<Longrightarrow> readers s = {} \<Longrightarrow>
     hub_step L P s Granted (with_app P (run_change x (hb_app s)) (s\<lparr>hb_lock := ws,
       hb_answered := (if to_save x = None then insert i (hb_answered s) else hb_answered s),
       hb_saving := (hb_saving s)(i := to_save x)\<rparr>))"
| saves: "hb_saving s i = Some dev \<Longrightarrow> hub_step L P s (Saves i) (s\<lparr>
     hb_app := do_db (save_device L dev) (hb_app s), hb_answered := insert i (hb_answered s),
     hb_saving := (hb_saving s)(i := None)\<rparr>)"
| places: "hb_prog s i = Some (Sending ch) \<Longrightarrow> hb_writes s i = Some (c, req) \<Longrightarrow> ch \<notin> app_stopped (hb_app s) \<Longrightarrow>
     length (hb_chan s ch) < CHANNEL_CAPACITY \<Longrightarrow>
     hub_step L P s (Placed i) (set_progress i Awaiting (s\<lparr>hb_chan := (hb_chan s)(ch := hb_chan s ch @ [command req i])\<rparr>))"
| refuses: "hb_prog s i = Some (Sending ch) \<Longrightarrow> ch \<in> app_stopped (hb_app s) \<Longrightarrow>
     hub_step L P s (Refused i) (set_progress i (Finished write_closed) s)"
| answers: "hb_prog s i = Some Awaiting \<Longrightarrow> hb_writes s i = Some (c, req) \<Longrightarrow> hb_oneshot s i = Some x \<Longrightarrow>
     write_finish L c req (case x of Replied y \<Rightarrow> Some y | Dropped \<Rightarrow> None) (hb_app s) = (r, a) \<Longrightarrow>
     hub_step L P s (Answers i) (set_progress i (Finished r) (s\<lparr>hb_app := a\<rparr>))"
| leaves: "hb_prog s i = Some x \<Longrightarrow> x = Locking \<or> x = Sending ch \<or> x = Awaiting \<Longrightarrow>
     hub_step L P s (Leaves i) (set_progress i Abandoned
       (s\<lparr>hb_lock := filter (\<lambda>w. w \<noteq> WriteReq i) (hb_lock s)\<rparr>))"
| takes: "running t s \<Longrightarrow> phase_of t s = Polling \<Longrightarrow> hb_chan s t = cmd # cmds \<Longrightarrow>
     plc_write (pn_ops P (app_tasks (hb_app s) ! t)) (wc_register cmd) (wc_value cmd)
       (tk_client (hb_tasks s ! t)) = (r, cl) \<Longrightarrow>
     hub_step L P s (Takes t) (run_task t
       (on_write (pn_ops P (app_tasks (hb_app s) ! t)) (wc_register cmd) (wc_value cmd))
       (s\<lparr>hb_chan := (hb_chan s)(t := cmds),
          hb_oneshot := (hb_oneshot s)(wc_response cmd \<mapsto> Replied r),
          hb_log := hb_log s @ [(t, cmd, r)]\<rparr>))"
| polls: "running t s \<Longrightarrow> phase_of t s = Polling \<Longrightarrow> hub_step L P s (Polls t) (run_task t
     (on_tick L (pn_ops P (app_tasks (hb_app s) ! t)) (app_tasks (hb_app s) ! t)) s)"
| attempts: "running t s \<Longrightarrow> phase_of t s = Connecting \<Longrightarrow> hub_step L P s (Attempts t) (run_task t
     (on_connect (pn_ops P (app_tasks (hb_app s) ! t)) (app_tasks (hb_app s) ! t)) s)"
| resumes: "running t s \<Longrightarrow> phase_of t s = Pausing \<Longrightarrow> hub_step L P s (Resumes t) (run_task t
     (\<lambda>k. k\<lparr>tk_phase := Connecting\<rparr>) s)"
| serves: "same_devices (hb_app s) a \<Longrightarrow> moves (hb_app s) a \<Longrightarrow> hub_step L P s Serves (s\<lparr>hb_app := a\<rparr>)"
| dies: "running t s \<Longrightarrow> phase_of t s = Panicked \<Longrightarrow> hub_step L P s (Dies t)
     (with_app P (abort_task t (hb_app s)) s)"

inductive runs :: "('s \<Rightarrow> 'e \<Rightarrow> 's \<Rightarrow> bool) \<Rightarrow> 's \<Rightarrow> 'e list \<Rightarrow> 's \<Rightarrow> bool" for step where
  runs_none: "runs step s [] s"
| runs_more: "runs step s es t \<Longrightarrow> step t e u \<Longrightarrow> runs step s (es @ [e]) u"

lemma runs_three:
  assumes "runs step s es t" and "step t a u" and "step u b v" and "step v c w"
  shows "runs step s (es @ [a, b, c]) w"
proof -
  have "runs step s (((es @ [a]) @ [b]) @ [c]) w" by (intro runs_more) (fact assms)+
  then show ?thesis by simp
qed

text \<open>What every step keeps, as long as its event is not \<open>excluded\<close>, every run keeps.\<close>
locale kept =
  fixes step :: "'s \<Rightarrow> 'e \<Rightarrow> 's \<Rightarrow> bool" and excluded :: "'e set" and inv :: "'s \<Rightarrow> bool"
  assumes step_keeps: "step s e t \<Longrightarrow> e \<notin> excluded \<Longrightarrow> inv s \<Longrightarrow> inv t"
begin

lemma runs_keep: "runs step s es t \<Longrightarrow> set es \<inter> excluded = {} \<Longrightarrow> inv s \<Longrightarrow> inv t"
  by (induction rule: runs.induct) (auto intro: step_keeps)

end

text \<open>A request that leaves the registry alone, served as one step.\<close>
lemma other_requests_serve:
  assumes "Devices \<notin> parts_of req" and "answers_alone (ev_device e)"
  shows "hub_step L P s Serves (s\<lparr>hb_app := snd (serve e h req (hb_app s))\<rparr>)"
proof (rule serves)
  show "same_devices (hb_app s) (snd (serve e h req (hb_app s)))"
    using serve_only [OF assms(2), of req "hb_app s" h] assms(1) by (simp add: only_def)
  show "moves (hb_app s) (snd (serve e h req (hb_app s)))"
    using assms(2) by (intro moves_serve) (simp add: answers_alone_def)
qed

section \<open>The invariant\<close>

definition pending :: "nat \<Rightarrow> 'c hub \<Rightarrow> nat list" where
  "pending t s = map wc_response (hb_chan s t)"

definition logged :: "'c hub \<Rightarrow> nat list" where
  "logged s = map (\<lambda>(t, cmd, r). wc_response cmd) (hb_log s)"

text \<open>Every channel belongs to a task.\<close>
fun change_ok :: "nat \<Rightarrow> waiter \<Rightarrow> bool" where
  "change_ok n (ChangeReq i (InsertHandle dev h)) \<longleftrightarrow> dh_write_tx h < n"
| "change_ok n (ChangeReq i (ReplaceTask d h)) \<longleftrightarrow> dh_write_tx h < n"
| "change_ok n w \<longleftrightarrow> True"

definition channels_ok :: "'c hub \<Rightarrow> bool" where
  "channels_ok s \<longleftrightarrow> length (hb_tasks s) = length (app_tasks (hb_app s)) \<and>
     (\<forall>d h. reg_get d (hb_app s) = Some h \<longrightarrow> dh_write_tx h < length (hb_tasks s)) \<and>
     (\<forall>w \<in> set (hb_lock s). change_ok (length (hb_tasks s)) w) \<and>
     (\<forall>i ch. hb_prog s i = Some (Sending ch) \<longrightarrow> ch < length (hb_tasks s)) \<and>
     (\<forall>t. length (hb_chan s t) \<le> CHANNEL_CAPACITY) \<and>
     (\<forall>t. hb_chan s t \<noteq> [] \<longrightarrow> running t s)"

text \<open>A request that has sent its command, or has not.\<close>
fun sent :: "progress option \<Rightarrow> bool" where
  "sent (Some Awaiting) \<longleftrightarrow> True" | "sent (Some (Finished r)) \<longleftrightarrow> True"
| "sent (Some Abandoned) \<longleftrightarrow> True" | "sent x \<longleftrightarrow> False"

text \<open>
  A command is in one place: in one channel once, or, answered, in the log once; and it is the command of
  a request that has sent it and that has no answer as long as it waits in a channel.
\<close>
definition unique_ok :: "'c hub \<Rightarrow> bool" where
  "unique_ok s \<longleftrightarrow> (\<forall>t. distinct (pending t s)) \<and> distinct (logged s) \<and>
     (\<forall>i t u. i \<in> set (pending t s) \<longrightarrow> i \<in> set (pending u s) \<longrightarrow> t = u) \<and>
     (\<forall>t. \<forall>i \<in> set (pending t s). sent (hb_prog s i) \<and> hb_oneshot s i = None \<and>
        (\<forall>r. hb_prog s i \<noteq> Some (Finished r))) \<and>
     (\<forall>i \<in> set (logged s). hb_oneshot s i \<noteq> None) \<and>
     (\<forall>i. hb_oneshot s i \<noteq> None \<longrightarrow> sent (hb_prog s i))"

text \<open>A command is what its request asked for.\<close>
definition asked_for :: "'c hub \<Rightarrow> write_command \<Rightarrow> bool" where
  "asked_for s cmd \<longleftrightarrow> (\<exists>c req. hb_writes s (wc_response cmd) = Some (c, req) \<and>
     wc_register cmd = wr_register req \<and> wc_value cmd = wr_value req)"

definition origin_ok :: "'c hub \<Rightarrow> bool" where
  "origin_ok s \<longleftrightarrow> (\<forall>t. \<forall>cmd \<in> set (hb_chan s t). asked_for s cmd) \<and>
     (\<forall>(t, cmd, r) \<in> set (hb_log s). asked_for s cmd)"

text \<open>A request that waits has its command in a channel or its answer; answers come from clients.\<close>
definition answers_ok :: "'c hub \<Rightarrow> bool" where
  "answers_ok s \<longleftrightarrow>
     (\<forall>i. hb_prog s i = Some Awaiting \<longrightarrow> (\<exists>t. i \<in> set (pending t s)) \<or> hb_oneshot s i \<noteq> None) \<and>
     (\<forall>i r. hb_oneshot s i = Some (Replied r) \<longrightarrow>
        (\<exists>t cmd. (t, cmd, r) \<in> set (hb_log s) \<and> wc_response cmd = i)) \<and>
     (\<forall>i r. hb_prog s i = Some (Finished r) \<and> success r \<longrightarrow>
        (\<exists>t cmd. (t, cmd, Inr ()) \<in> set (hb_log s) \<and> wc_response cmd = i))"

lemma hub_simps [simp]:
  "hb_prog (set_progress i x s) = (hb_prog s)(i \<mapsto> x)" "hb_app (set_progress i x s) = hb_app s"
  "hb_tasks (set_progress i x s) = hb_tasks s" "hb_chan (set_progress i x s) = hb_chan s"
  "hb_oneshot (set_progress i x s) = hb_oneshot s" "hb_writes (set_progress i x s) = hb_writes s"
  "hb_lock (set_progress i x s) = hb_lock s" "hb_log (set_progress i x s) = hb_log s"
  "hb_answered (set_progress i x s) = hb_answered s"
  "hb_prog (run_task t f s) = hb_prog s" "hb_chan (run_task t f s) = hb_chan s"
  "hb_oneshot (run_task t f s) = hb_oneshot s" "hb_writes (run_task t f s) = hb_writes s"
  "hb_lock (run_task t f s) = hb_lock s" "hb_log (run_task t f s) = hb_log s"
  "hb_answered (run_task t f s) = hb_answered s" "hb_saving (set_progress i x s) = hb_saving s"
  "hb_saving (run_task t f s) = hb_saving s" "hb_saving (with_app P a s) = hb_saving s"
  "length (hb_tasks (run_task t f s)) = length (hb_tasks s)"
  "app_tasks (hb_app (run_task t f s)) = app_tasks (hb_app s)"
  "app_stopped (hb_app (run_task t f s)) = app_stopped (hb_app s)"
  "app_devices (hb_app (run_task t f s)) = app_devices (hb_app s)"
  "reg_get d (hb_app (run_task t f s)) = reg_get d (hb_app s)"
  "hb_prog (with_app P a s) = hb_prog s" "hb_app (with_app P a s) = a"
  "hb_writes (with_app P a s) = hb_writes s" "hb_lock (with_app P a s) = hb_lock s"
  "hb_log (with_app P a s) = hb_log s" "hb_answered (with_app P a s) = hb_answered s"
  by (simp_all add: set_progress_def run_task_def with_app_def Let_def reg_get_def)

lemma pending_simps [simp]:
  "pending t (set_progress i x s) = pending t s" "pending t (run_task u f s) = pending t s"
  "logged (set_progress i x s) = logged s" "logged (run_task u f s) = logged s"
  "logged (with_app P a s) = logged s"
  "pending t (with_app P a s) = (if t \<in> app_stopped a then [] else pending t s)"
  by (simp_all add: pending_def logged_def with_app_def)

lemma pending_updates [simp]:
  "pending t (s\<lparr>hb_lock := x\<rparr>) = pending t s" "pending t (s\<lparr>hb_app := a\<rparr>) = pending t s"
  "pending t (s\<lparr>hb_saving := m\<rparr>) = pending t s" "logged (s\<lparr>hb_saving := m\<rparr>) = logged s"
  "pending t (s\<lparr>hb_answered := y\<rparr>) = pending t s" "pending t (s\<lparr>hb_asked := y\<rparr>) = pending t s"
  "pending t (s\<lparr>hb_writes := z\<rparr>) = pending t s" 
  "logged (s\<lparr>hb_lock := x\<rparr>) = logged s" "logged (s\<lparr>hb_app := a\<rparr>) = logged s"
  "logged (s\<lparr>hb_answered := y\<rparr>) = logged s" "logged (s\<lparr>hb_asked := y\<rparr>) = logged s"
  "logged (s\<lparr>hb_writes := z\<rparr>) = logged s" "logged (s\<lparr>hb_chan := v\<rparr>) = logged s"
  by (simp_all add: pending_def logged_def)


lemma hub_frame [simp]:
  "unique_ok (s\<lparr>hb_lock := x\<rparr>) = unique_ok s" "unique_ok (s\<lparr>hb_app := a\<rparr>) = unique_ok s"
  "unique_ok (s\<lparr>hb_saving := m\<rparr>) = unique_ok s" "asked_for (s\<lparr>hb_saving := m\<rparr>) = asked_for s"
  "answers_ok (s\<lparr>hb_saving := m\<rparr>) = answers_ok s"
  "unique_ok (s\<lparr>hb_answered := y\<rparr>) = unique_ok s" "unique_ok (s\<lparr>hb_asked := y\<rparr>) = unique_ok s"
  "unique_ok (run_task t f s) = unique_ok s"
  "asked_for (s\<lparr>hb_lock := x\<rparr>) = asked_for s" "asked_for (s\<lparr>hb_app := a\<rparr>) = asked_for s"
  "asked_for (s\<lparr>hb_answered := y\<rparr>) = asked_for s" "asked_for (s\<lparr>hb_asked := y\<rparr>) = asked_for s"
  "asked_for (s\<lparr>hb_chan := v\<rparr>) = asked_for s"
  "asked_for (run_task t f s) = asked_for s" "asked_for (set_progress i z s) = asked_for s"
  "asked_for (with_app P a s) = asked_for s"
  "answers_ok (s\<lparr>hb_lock := x\<rparr>) = answers_ok s" "answers_ok (s\<lparr>hb_app := a\<rparr>) = answers_ok s"
  "answers_ok (s\<lparr>hb_answered := y\<rparr>) = answers_ok s" "answers_ok (s\<lparr>hb_asked := y\<rparr>) = answers_ok s"
  "answers_ok (run_task t f s) = answers_ok s"
  by (simp_all add: unique_ok_def asked_for_def answers_ok_def fun_eq_iff with_app_def)

lemma with_app_oneshot [simp]:
  "hb_oneshot (with_app P a s) i =
     (if \<exists>t \<in> app_stopped a. i \<in> set (pending t s) then Some Dropped else hb_oneshot s i)"
  "hb_chan (with_app P a s) t = (if t \<in> app_stopped a then [] else hb_chan s t)"
  by (simp_all add: with_app_def pending_def)

lemma unique_okD:
  assumes "unique_ok s"
  shows "distinct (pending t s)" "distinct (logged s)"
    "i \<in> set (pending t s) \<Longrightarrow> i \<in> set (pending u s) \<Longrightarrow> t = u"
    "i \<in> set (pending t s) \<Longrightarrow> sent (hb_prog s i)"
    "i \<in> set (pending t s) \<Longrightarrow> hb_oneshot s i = None"
    "i \<in> set (pending t s) \<Longrightarrow> hb_prog s i \<noteq> Some (Finished r)"
    "i \<in> set (logged s) \<Longrightarrow> hb_oneshot s i \<noteq> None"
    "hb_oneshot s i \<noteq> None \<Longrightarrow> sent (hb_prog s i)"
  using assms unfolding unique_ok_def by blast+

lemma unique_ok_with_app:
  assumes "unique_ok s" shows "unique_ok (with_app P a s)"
proof -
  have once: "i \<in> set (pending t s) \<Longrightarrow> i \<in> set (pending u s) \<Longrightarrow> t = u" for i t u
    using assms by (simp add: unique_ok_def)
  show ?thesis using assms once by (auto simp: unique_ok_def)
qed

lemma origin_ok_with_app: "origin_ok s \<Longrightarrow> origin_ok (with_app P a s)"
  by (simp add: origin_ok_def)

lemma answers_ok_with_app:
  assumes "answers_ok s" shows "answers_ok (with_app P a s)"
proof -
  have "(\<exists>t. i \<in> set (pending t (with_app P a s))) \<or> hb_oneshot (with_app P a s) i \<noteq> None"
    if "hb_prog s i = Some Awaiting" for i
  proof (cases "\<exists>t. i \<in> set (pending t s)")
    case True
    then obtain t where t: "i \<in> set (pending t s)" ..
    then show ?thesis by (cases "t \<in> app_stopped a") auto
  next
    case False
    then show ?thesis using assms that by (auto simp: answers_ok_def)
  qed
  then show ?thesis using assms by (auto simp: answers_ok_def)
qed

lemma unsent:
  assumes "unique_ok s" and "\<not> sent (hb_prog s i)"
  shows "i \<notin> set (pending t s)" "i \<notin> set (logged s)" "hb_oneshot s i = None"
  using assms by (auto simp: unique_ok_def)

lemma in_pending: "cmd \<in> set (hb_chan s t) \<Longrightarrow> wc_response cmd \<in> set (pending t s)"
  by (simp add: pending_def)

lemma in_logged: "(t, cmd, r) \<in> set (hb_log s) \<Longrightarrow> wc_response cmd \<in> set (logged s)"
  by (force simp: logged_def)

lemma pending_chan [simp]:
  "pending t (s\<lparr>hb_chan := (hb_chan s)(u := cs), hb_oneshot := f, hb_log := g\<rparr>) =
     (if t = u then map wc_response cs else pending t s)"
  "pending t (s\<lparr>hb_chan := (hb_chan s)(u := cs)\<rparr>) = (if t = u then map wc_response cs else pending t s)"
  "logged (s\<lparr>hb_chan := h, hb_oneshot := f, hb_log := g\<rparr>) = map (\<lambda>(t, cmd, r). wc_response cmd) g"
  by (simp_all add: pending_def logged_def)

lemma unique_ok_step: "hub_step L P s e u \<Longrightarrow> unique_ok s \<Longrightarrow> unique_ok u"
proof (induction rule: hub_step.induct)
  case (asks_write s i c req)
  then have "\<not> sent (hb_prog s i)" by simp
  note new = unsent [OF asks_write(2) this]
  show ?case using asks_write(2) new by (auto simp: unique_ok_def)
next
  case (grants_write s i ws c req)
  then have "\<not> sent (hb_prog s i)" by simp
  note new = unsent [OF grants_write(4) this]
  show ?case using grants_write(4) new by (auto simp: unique_ok_def)
next
  case (places s i ch c req)
  then have "\<not> sent (hb_prog s i)" by simp
  note new = unsent [OF places(5) this]
  let ?u = "set_progress i Awaiting (s\<lparr>hb_chan := (hb_chan s)(ch := hb_chan s ch @ [command req i])\<rparr>)"
  have p: "pending t ?u = (if t = ch then pending t s @ [i] else pending t s)" for t
    by (simp add: pending_def)
  note D = unique_okD [OF places(5)]
  show ?case unfolding unique_ok_def p
    using D(1) D(2) new D(4-8) by (auto dest: D(3))
next
  case (refuses s i ch)
  then have "\<not> sent (hb_prog s i)" by simp
  note new = unsent [OF refuses(3) this]
  show ?case using refuses(3) new by (auto simp: unique_ok_def)
next
  case (answers s i c req x r a)
  then have "i \<notin> set (pending t s)" for t by (auto simp: unique_ok_def)
  then show ?case using answers(5) by (auto simp: unique_ok_def)
next
  case (leaves i s x ch)
  then show ?case by (auto simp: unique_ok_def)
next
  case (takes t s cmd cmds r cl)
  let ?i = "wc_response cmd"
  have p: "pending t s = ?i # map wc_response cmds" using takes(3) by (simp add: pending_def)
  note D = unique_okD [OF takes(5)]
  have here: "?i \<in> set (pending t s)" and rest: "distinct (map wc_response cmds)"
    "?i \<notin> set (map wc_response cmds)"
    using D(1) [of t] unfolding p by simp_all
  have i: "?i \<notin> set (logged s)" "sent (hb_prog s ?i)"
    using D(4,5,7) here by blast+
  have log: "map (\<lambda>(t, cmd, r). wc_response cmd) (hb_log s @ [(t, cmd, r)]) = logged s @ [?i]"
    by (simp add: logged_def)
  have in_rest: "j \<in> set (pending t s) \<and> j \<noteq> ?i" if "j \<in> set (map wc_response cmds)" for j
    using that rest(2) unfolding p by (metis list.set_intros(2))
  have a: "j \<in> set (if v = t then map wc_response cmds else pending v s) \<Longrightarrow>
      j \<in> set (pending v s) \<and> j \<noteq> ?i" for j v
    using in_rest D(3) [OF here] by (cases "v = t") auto
  let ?u = "s\<lparr>hb_chan := (hb_chan s)(t := cmds), hb_oneshot := (hb_oneshot s)(?i \<mapsto> Replied r),
    hb_log := hb_log s @ [(t, cmd, r)]\<rparr>"
  have q: "j \<in> set (pending v s) \<and> j \<noteq> ?i" if "j \<in> set (pending v ?u)" for j v
    using a [of j v] that by simp
  have g: "logged ?u = logged s @ [?i]" using log by simp
  have "distinct (pending v ?u)" for v using rest(1) D(1) by simp
  moreover have "v = w" if "j \<in> set (pending v ?u)" "j \<in> set (pending w ?u)" for v w j
    using q [OF that(1)] q [OF that(2)] D(3) by blast
  moreover have "sent (hb_prog ?u j) \<and> hb_oneshot ?u j = None \<and> (\<forall>x. hb_prog ?u j \<noteq> Some (Finished x))"
    if "j \<in> set (pending v ?u)" for v j
    using q [OF that] D(4-6) [of j v] by simp
  moreover have "sent (hb_prog ?u j)" if "hb_oneshot ?u j \<noteq> None" for j
    using that i(2) D(8) by (cases "j = ?i") auto
  moreover have "hb_oneshot ?u j \<noteq> None" if "j \<in> set (logged ?u)" for j
    using that D(7) unfolding g by auto
  moreover have "distinct (logged ?u)" using D(2) i(1) unfolding g by simp
  ultimately have "unique_ok ?u" unfolding unique_ok_def by blast
  then show ?case by simp
qed (simp_all add: unique_ok_with_app)

lemma origin_ok_step: "hub_step L P s e u \<Longrightarrow> origin_ok s \<and> unique_ok s \<Longrightarrow> origin_ok u"
proof (induction rule: hub_step.induct)
  case (asks_write s i c req)
  then have "\<not> sent (hb_prog s i)" "unique_ok s" by simp_all
  then have "j \<noteq> i" if "j \<in> set (pending t s) \<or> j \<in> set (logged s)" for j t
    using that unsent by metis
  then have "wc_response cmd \<noteq> i" if "cmd \<in> set (hb_chan s t) \<or> (t, cmd, r) \<in> set (hb_log s)" for cmd t r
    using that in_pending in_logged by metis
  then show ?case using asks_write(2) by (fastforce simp: origin_ok_def asked_for_def)
next
  case (places s i ch c req)
  then show ?case by (auto simp: origin_ok_def asked_for_def)
next
  case (takes t s cmd cmds r cl)
  have "\<forall>x \<in> set (hb_chan s t). asked_for s x" using takes(5) by (simp add: origin_ok_def)
  then have "asked_for s cmd" "\<forall>x \<in> set cmds. asked_for s x" by (simp_all add: takes(3))
  then show ?case using takes(5) by (auto simp: origin_ok_def asked_for_def)
qed (auto simp: origin_ok_with_app, auto simp: origin_ok_def)

lemma answers_okD:
  assumes "answers_ok s"
  shows "hb_prog s i = Some Awaiting \<Longrightarrow> (\<exists>t. i \<in> set (pending t s)) \<or> hb_oneshot s i \<noteq> None"
    "hb_oneshot s i = Some (Replied r) \<Longrightarrow> \<exists>t cmd. (t, cmd, r) \<in> set (hb_log s) \<and> wc_response cmd = i"
    "hb_prog s i = Some (Finished q) \<Longrightarrow> success q \<Longrightarrow>
       \<exists>t cmd. (t, cmd, Inr ()) \<in> set (hb_log s) \<and> wc_response cmd = i"
  using assms unfolding answers_ok_def by blast+

lemma success_write_finish:
  "write_finish L c req x a = (r, b) \<Longrightarrow> success r \<longleftrightarrow> x = Some (Inr ())"
  by (cases x) (auto simp: write_finish_def Let_def split: sum.splits)

text \<open>A step that moves a request to a progress without a claim.\<close>
lemma answers_ok_progress:
  assumes "answers_ok s" and "x \<noteq> Awaiting" and "\<And>r. x = Finished r \<Longrightarrow> \<not> success r"
  shows "answers_ok (set_progress i x s)"
  using assms by (auto simp: answers_ok_def)

lemma answers_ok_step: "hub_step L P s e u \<Longrightarrow> answers_ok s \<and> unique_ok s \<Longrightarrow> answers_ok u"
proof (induction rule: hub_step.induct)
  case (asks_write s i c req)
  then show ?case by (auto simp: answers_ok_def)
next
  case (grants_write s i ws c req)
  have "\<not> success r" if "write_target req (hb_app s) = Inl r" for r
    using that by (auto simp: write_target_def split: option.splits if_splits)
  then show ?case using grants_write(4)
    by (intro answers_ok_progress) (auto split: sum.splits)
next
  case (places s i ch c req)
  let ?u = "set_progress i Awaiting (s\<lparr>hb_chan := (hb_chan s)(ch := hb_chan s ch @ [command req i])\<rparr>)"
  have p: "pending t ?u = (if t = ch then pending t s @ [i] else pending t s)" for t
    by (simp add: pending_def)
  have "\<exists>t. j \<in> set (pending t ?u)" if j: "hb_prog ?u j = Some Awaiting" "hb_oneshot s j = None" for j
  proof (cases "j = i")
    case True
    then show ?thesis by (intro exI [of _ ch]) (simp only: p, simp)
  next
    case False
    then obtain t where "j \<in> set (pending t s)"
      using j False answers_okD(1) [OF places(5) [THEN conjunct1], of j] by auto
    then show ?thesis by (intro exI [of _ t]) (simp only: p, auto)
  qed
  moreover have "\<exists>v c. (v, c, q) \<in> set (hb_log ?u) \<and> wc_response c = j"
    if "hb_oneshot ?u j = Some (Replied q)" for j q
    using answers_okD(2) [OF places(5) [THEN conjunct1]] that by simp
  moreover have "\<exists>v c. (v, c, Inr ()) \<in> set (hb_log ?u) \<and> wc_response c = j"
    if "hb_prog ?u j = Some (Finished q)" "success q" for j q
    using answers_okD(3) [OF places(5) [THEN conjunct1], of j q] that by (auto split: if_splits)
  moreover have "hb_oneshot ?u = hb_oneshot s" by simp
  ultimately show ?case unfolding answers_ok_def by metis
next
  case (refuses s i ch)
  then show ?case by (intro answers_ok_progress) (auto simp: write_closed_def)
next
  case (answers s i c req x r a)
  have "success r \<Longrightarrow> hb_oneshot s i = Some (Replied (Inr ()))"
    using answers(3) success_write_finish [OF answers(4)] by (cases x) auto
  then show ?case using answers(5) by (auto simp: answers_ok_def)
next
  case (leaves i s x ch)
  then show ?case by (intro answers_ok_progress) simp_all
next
  case (takes t s cmd cmds r cl)
  let ?i = "wc_response cmd"
  let ?u = "s\<lparr>hb_chan := (hb_chan s)(t := cmds), hb_oneshot := (hb_oneshot s)(?i \<mapsto> Replied r),
    hb_log := hb_log s @ [(t, cmd, r)]\<rparr>"
  note D = answers_okD [OF takes(5) [THEN conjunct1]]
  have p: "pending t s = ?i # map wc_response cmds" using takes(3) by (simp add: pending_def)
  have "(\<exists>v. j \<in> set (pending v ?u)) \<or> hb_oneshot ?u j \<noteq> None" if "hb_prog s j = Some Awaiting" for j
  proof (cases "j = ?i")
    case False
    from D(1) [OF that] show ?thesis
    proof
      assume "\<exists>v. j \<in> set (pending v s)"
      then obtain v where "j \<in> set (pending v s)" ..
      then show ?thesis using False p by (intro disjI1 exI [of _ v]) (auto split: if_splits)
    qed (use False in simp)
  qed simp
  moreover have "\<exists>v c. (v, c, q) \<in> set (hb_log ?u) \<and> wc_response c = j"
    if "hb_oneshot ?u j = Some (Replied q)" for j q
    using that D(2) [of j q] by (cases "j = ?i") auto
  moreover have "\<exists>v c. (v, c, Inr ()) \<in> set (hb_log ?u) \<and> wc_response c = j"
    if "hb_prog s j = Some (Finished q)" "success q" for j q
    using D(3) [OF that] by auto
  ultimately have "answers_ok ?u" unfolding answers_ok_def by simp
  then show ?case by simp
qed (simp_all add: answers_ok_with_app)


section \<open>Channels\<close>

definition handles_ok :: "app_state \<Rightarrow> bool" where
  "handles_ok a \<longleftrightarrow> (\<forall>d h. reg_get d a = Some h \<longrightarrow> dh_write_tx h < length (app_tasks a))"

fun handle_of :: "registry_change \<Rightarrow> nat option" where
  "handle_of (InsertHandle dev h) = Some (dh_write_tx h)"
| "handle_of (ReplaceTask d h) = Some (dh_write_tx h)"
| "handle_of x = None"

lemma change_ok_handle: "change_ok n (ChangeReq i x) \<longleftrightarrow> (\<forall>t. handle_of x = Some t \<longrightarrow> t < n)"
  by (cases x) auto

lemma change_ok_mono: "change_ok n w \<Longrightarrow> n \<le> m \<Longrightarrow> change_ok m w"
  by (cases "(n, w)" rule: change_ok.cases) auto

lemma run_check_tasks:
  assumes "run_check L k a = (x, b)"
  shows "app_devices b = app_devices a" "length (app_tasks a) \<le> length (app_tasks b)"
    "app_stopped b = app_stopped a" "take (length (app_tasks a)) (app_tasks b) = app_tasks a"
    "\<forall>y. x = Some y \<longrightarrow> (\<forall>t. handle_of y = Some t \<longrightarrow> t < length (app_tasks b))"
  using assms
  by (cases k; auto simp: started_def start_polling_def spawn_polling_def Let_def
      split: if_splits option.splits sum.splits)+

lemma run_change_tasks [simp]: "app_tasks (run_change x a) = app_tasks a"
  by (cases x) (auto simp: remove_device_def disconnect_device_def abort_task_def reg_remove_def
      reg_insert_def Let_def split: option.split)

lemma handles_ok_change:
  "handles_ok a \<Longrightarrow> (\<forall>t. handle_of x = Some t \<longrightarrow> t < length (app_tasks a)) \<Longrightarrow> handles_ok (run_change x a)"
  by (cases x) (auto simp: handles_ok_def remove_device_def disconnect_device_def Let_def
      split: option.split if_splits)

lemma run_change_stopped: "app_stopped a \<subseteq> app_stopped (run_change x a)"
  by (cases x) (auto simp: remove_device_def disconnect_device_def Let_def split: option.split)

lemma length_more_tasks [simp]:
  "length (more_tasks P a ts) = max (length ts) (length (app_tasks a))"
  by (simp add: more_tasks_def)

lemma channels_ok_handles:
  "channels_ok s \<longleftrightarrow> length (hb_tasks s) = length (app_tasks (hb_app s)) \<and> handles_ok (hb_app s) \<and>
     (\<forall>w \<in> set (hb_lock s). change_ok (length (app_tasks (hb_app s))) w) \<and>
     (\<forall>i ch. hb_prog s i = Some (Sending ch) \<longrightarrow> ch < length (app_tasks (hb_app s))) \<and>
     (\<forall>t. length (hb_chan s t) \<le> CHANNEL_CAPACITY) \<and>
     (\<forall>t. hb_chan s t \<noteq> [] \<longrightarrow> t < length (app_tasks (hb_app s)) \<and> t \<notin> app_stopped (hb_app s))"
  by (auto simp: channels_ok_def handles_ok_def running_def)

text \<open>What a new shared state must be like.\<close>
lemma channels_ok_with_app:
  assumes "channels_ok s" and "handles_ok a" and "length (app_tasks (hb_app s)) \<le> length (app_tasks a)"
    and "\<forall>w \<in> set ws. change_ok (length (app_tasks a)) w"
  shows "channels_ok (with_app P a (s\<lparr>hb_lock := ws\<rparr>))"
    "channels_ok (with_app P a (s\<lparr>hb_lock := ws, hb_answered := x\<rparr>))"
    "channels_ok (with_app P a (s\<lparr>hb_lock := ws, hb_answered := x, hb_saving := m\<rparr>))"
  using assms unfolding channels_ok_handles
  by (auto simp: with_app_def CHANNEL_CAPACITY_def) (meson less_le_trans)+

lemma reg_get_devices: "app_devices b = app_devices a \<Longrightarrow> reg_get d b = reg_get d a"
  by (simp add: reg_get_def)

lemma channels_ok_step: "hub_step L P s e u \<Longrightarrow> channels_ok s \<Longrightarrow> channels_ok u"
proof (induction rule: hub_step.induct)
  case (grants_write s i ws c req)
  then show ?case
    by (auto simp: channels_ok_handles handles_ok_def write_target_def split: option.split)
next
  case (grants_check s i k ws a)
  note t = run_check_tasks [OF grants_check(2)]
  have "handles_ok a" using grants_check(3) t(2) reg_get_devices [OF t(1)]
    by (auto simp: channels_ok_handles handles_ok_def dest: less_le_trans)
  then show ?case using grants_check(1,3) t(2)
    by (intro channels_ok_with_app) (auto simp: channels_ok_handles dest: change_ok_mono)
next
  case (grants_start s i k ws x a)
  note t = run_check_tasks [OF grants_start(2)]
  have "handles_ok a" using grants_start(3) t(2) reg_get_devices [OF t(1)]
    by (auto simp: channels_ok_handles handles_ok_def dest: less_le_trans)
  then show ?case using grants_start(1,3) t(2,5)
    by (intro channels_ok_with_app) (auto simp: channels_ok_handles change_ok_handle dest: change_ok_mono)
next
  case (grants_change s i x ws)
  then show ?case
    by (intro channels_ok_with_app) (auto simp: channels_ok_handles change_ok_handle intro!: handles_ok_change)
next
  case (answers s i c req x r a)
  have "app_devices a = app_devices (hb_app s)" "app_tasks a = app_tasks (hb_app s)"
    "app_stopped a = app_stopped (hb_app s)"
    using answers(4) by (auto simp: write_finish_def audit_as_def Let_def split: option.splits sum.splits)
  then show ?case using answers(5) by (auto simp: channels_ok_handles handles_ok_def reg_get_def)
next
  case (serves s a)
  then have "app_devices a = app_devices (hb_app s)" "app_tasks a = app_tasks (hb_app s)"
    "app_stopped a = app_stopped (hb_app s)" by (simp_all add: same_devices_def)
  then show ?case using serves(3) by (auto simp: channels_ok_handles handles_ok_def reg_get_def)
next
  case (dies t s)
  then have "channels_ok (with_app P (abort_task t (hb_app s)) (s\<lparr>hb_lock := hb_lock s\<rparr>))"
    by (intro channels_ok_with_app) (auto simp: channels_ok_handles handles_ok_def)
  then show ?case by simp
next
  case (takes t s cmd cmds r cl)
  have "length (hb_chan s t) \<le> CHANNEL_CAPACITY" using takes(5) by (simp add: channels_ok_handles)
  then have "length cmds \<le> CHANNEL_CAPACITY" by (simp add: takes(3))
  then show ?case using takes(1,5) by (auto simp: channels_ok_handles handles_ok_def running_def)
qed (auto simp: channels_ok_handles handles_ok_def)

definition hub_ok :: "'c hub \<Rightarrow> bool" where
  "hub_ok s \<longleftrightarrow> channels_ok s \<and> unique_ok s \<and> origin_ok s \<and> answers_ok s"

lemma hub_ok_start: "handles_ok a \<Longrightarrow> hub_ok (hub_start P a)"
  by (simp add: hub_ok_def hub_start_def channels_ok_handles unique_ok_def origin_ok_def answers_ok_def
      pending_def logged_def)

lemma hub_ok_step: "hub_step L P s e u \<Longrightarrow> hub_ok s \<Longrightarrow> hub_ok u"
  unfolding hub_ok_def
  by (blast intro: channels_ok_step unique_ok_step origin_ok_step answers_ok_step)

interpretation hub_kept: kept "hub_step L P" "{}" hub_ok for L P
  by unfold_locales (rule hub_ok_step)

lemma handles_ok_registry: "registry_ok a \<Longrightarrow> handles_ok a"
  by (simp add: registry_ok_def handles_ok_def)

lemma hub_ok_runs: "registry_ok a \<Longrightarrow> runs (hub_step L P) (hub_start P a) es s \<Longrightarrow> hub_ok s"
  by (rule hub_kept.runs_keep [OF _ _ hub_ok_start [OF handles_ok_registry]]) simp_all

end
