(* ===== verification/Writes.thy ===== *)
theory Writes
  imports Hub
begin

text \<open>
  Properties of the write path across the request handlers, the registry's lock, the write channels and
  the device tasks (theory \<open>Hub\<close>): every command is delivered, performed at most once and answered; the
  handler as one step is what it does in its stages; and two things that go wrong: a full channel
  keeps the registry locked, and a command outlives its request.
\<close>

section \<open>Filling a channel\<close>

lemma phase_of_run_task [simp]:
  "t < length (hb_tasks s) \<Longrightarrow> phase_of t (run_task u f s) =
     (if u = t then tk_phase (f ((hb_tasks s ! t)\<lparr>tk_world := app_db (hb_app s)\<rparr>)) else phase_of t s)"
  by (simp add: phase_of_def run_task_def Let_def)

lemma length_with_app [simp]:
  "length (hb_tasks (with_app P a s)) = max (length (hb_tasks s)) (length (app_tasks a))"
  by (simp add: with_app_def)

lemma phase_of_with_app [simp]:
  "t < length (hb_tasks s) \<Longrightarrow> phase_of t (with_app P a s) = phase_of t s"
  by (simp add: phase_of_def with_app_def more_tasks_def nth_append)

lemma phase_of_simps [simp]:
  "phase_of t (set_progress i x s) = phase_of t s" "phase_of t (s\<lparr>hb_lock := w\<rparr>) = phase_of t s"
  "phase_of t (s\<lparr>hb_app := a\<rparr>) = phase_of t s" "phase_of t (s\<lparr>hb_asked := z\<rparr>) = phase_of t s"
  "phase_of t (s\<lparr>hb_chan := v\<rparr>) = phase_of t s" "phase_of t (s\<lparr>hb_writes := q\<rparr>) = phase_of t s"
  "phase_of t (s\<lparr>hb_oneshot := o'\<rparr>) = phase_of t s" "phase_of t (s\<lparr>hb_log := l\<rparr>) = phase_of t s"
  by (simp_all add: phase_of_def set_progress_def)

text \<open>Requests that fill the channel of a task.\<close>
definition write_events :: "nat \<Rightarrow> hub_event list" where
  "write_events n = concat (map (\<lambda>i. [Asks i, Granted, Placed i]) [0..<n])"

lemma fill_channel:
  assumes "write_target req a = Inr t" and "t \<notin> app_stopped a" and "n \<le> CHANNEL_CAPACITY"
  shows "\<exists>s. runs (hub_step L P) (hub_start P a) (write_events n) s \<and> hb_app s = a \<and>
     hb_tasks s = more_tasks P a [] \<and> hb_chan s t = map (command req) [0..<n] \<and> hb_lock s = [] \<and>
     hb_asked s = {} \<and> hb_answered s = {} \<and> hb_saving s = Map.empty \<and>
     (\<forall>i < n. hb_prog s i = Some Awaiting \<and> hb_writes s i = Some (None, req)) \<and>
     (\<forall>i \<ge> n. hb_prog s i = None)"
  using assms(3)
proof (induction n)
  case 0
  show ?case
    by (rule exI [of _ "hub_start P a"]) (simp add: write_events_def runs_none hub_start_def)
next
  case (Suc n)
  then obtain s where s: "runs (hub_step L P) (hub_start P a) (write_events n) s" "hb_app s = a"
    "hb_tasks s = more_tasks P a []" "hb_chan s t = map (command req) [0..<n]" "hb_lock s = []"
    "hb_asked s = {}" "hb_answered s = {}" "hb_saving s = Map.empty" "\<forall>i < n. hb_prog s i = Some Awaiting \<and> hb_writes s i = Some (None, req)"
    "\<forall>i \<ge> n. hb_prog s i = None" by auto
  define s1 where "s1 = set_progress n Locking
    (s\<lparr>hb_writes := (hb_writes s)(n \<mapsto> (None, req)), hb_lock := hb_lock s @ [WriteReq n]\<rparr>)"
  have 1: "hub_step L P s (Asks n) s1" unfolding s1_def by (rule asks_write) (simp add: s)
  define s2 where "s2 = set_progress n (case write_target req (hb_app s1) of
        Inl r \<Rightarrow> Finished r | Inr ch \<Rightarrow> Sending ch) (s1\<lparr>hb_lock := []\<rparr>)"
  have 2: "hub_step L P s1 Granted s2"
    unfolding s2_def by (rule grants_write [where c = None]) (simp_all add: s s1_def)
  define s3 where "s3 = set_progress n Awaiting (s2\<lparr>hb_chan := (hb_chan s2)(t := hb_chan s2 t @ [command req n])\<rparr>)"
  have 3: "hub_step L P s2 (Placed n) s3"
    unfolding s3_def using Suc.prems
    by (intro places [where c = None]) (simp_all add: s s1_def s2_def assms)
  have "runs (hub_step L P) (hub_start P a) (write_events (Suc n)) s3"
    using runs_three [where step = "hub_step L P", OF s(1) 1 2 3] by (simp add: write_events_def)
  moreover have "hb_app s3 = a" "hb_tasks s3 = more_tasks P a []" "hb_lock s3 = []"
    "hb_chan s3 t = map (command req) [0..<Suc n]" 
    "\<forall>i < Suc n. hb_prog s3 i = Some Awaiting \<and> hb_writes s3 i = Some (None, req)"
    "\<forall>i \<ge> Suc n. hb_prog s3 i = None"
    using s(9) by (simp_all add: s s1_def s2_def s3_def assms command_def less_Suc_eq)
  moreover have "hb_asked s3 = {}" "hb_answered s3 = {}" "hb_saving s3 = Map.empty"
    by (simp_all add: s s1_def s2_def s3_def set_progress_def)
  ultimately show ?case by blast
qed

definition sample_ops :: "unit plc_ops" where
  "sample_ops = \<lparr>plc_connect = (\<lambda>c. (Inr (), c)), plc_read = (\<lambda>_ _ c. (Inr [], c)),
     plc_write = (\<lambda>_ _ c. (Inr (), c)), plc_is_connected = (\<lambda>_. True), plc_name = (\<lambda>_. ''sample'')\<rparr>"

text \<open>A plant with the device of the samples, which answers or which cannot be reached.\<close>
definition sample_plant :: "bool \<Rightarrow> unit plant" where
  "sample_plant reachable = \<lparr>pn_ops = (\<lambda>_. if reachable then sample_ops
     else sample_ops\<lparr>plc_connect := (\<lambda>c. (Inl ''timeout'', c))\<rparr>), pn_client = (\<lambda>_. ())\<rparr>"

definition sample_running :: app_state where
  "sample_running = reg_insert ''plc-01'' (fst (start_polling sample_device sample_app))
     (snd (start_polling sample_device sample_app))"

lemma sample_running_ok: "registry_ok sample_running"
proof -
  have "registry_ok sample_app" unfolding sample_app_def by (rule registry_ok_new)
  then show ?thesis unfolding sample_running_def
    by (rule registry_ok_start) (simp_all add: sample_app_def sample_device_def app_new_def reg_get_def)
qed

lemma sample_running_simps:
  "reg_get ''plc-01'' sample_running = Some \<lparr>dh_write_tx = 0, dh_task = 0, dh_config = sample_device\<rparr>"
  "app_tasks sample_running = [sample_device]" "app_stopped sample_running = {}"
  by (simp_all add: sample_running_def sample_app_def app_new_def)

lemma sample_write_target: "write_target sample_write sample_running = Inr 0"
  by (simp add: write_target_def sample_running_simps sample_write_def sample_device_def)

text \<open>One write that waits in the channel of a device not connected yet.\<close>
lemma sample_queued:
  "\<exists>s. runs (hub_step sample_libs P) (hub_start P sample_running) (write_events 1) s \<and>
     hb_app s = sample_running \<and> hb_tasks s = more_tasks P sample_running [] \<and>
     hb_chan s 0 = [command sample_write 0] \<and> hb_prog s 0 = Some Awaiting \<and>
     hb_writes s 0 = Some (None, sample_write)"
  using fill_channel [OF sample_write_target, where n = 1 and L = sample_libs and P = P]
  by (auto simp: sample_running_simps CHANNEL_CAPACITY_def)

text \<open>A task that connects and takes the first command of its channel.\<close>
lemma performs:
  assumes "hb_chan s t = cmd # cmds" and "running t s" and "phase_of t s = Connecting"
    and "dc_poll_rate_ms (app_tasks (hb_app s) ! t) \<noteq> 0"
    and "plc_connect (pn_ops P (app_tasks (hb_app s) ! t)) (tk_client (hb_tasks s ! t)) = (Inr (), c)"
    and "plc_write (pn_ops P (app_tasks (hb_app s) ! t)) (wc_register cmd) (wc_value cmd) c = (Inr (), c')"
  shows "\<exists>v u. hub_step L P s (Attempts t) v \<and> hub_step L P v (Takes t) u \<and>
     hb_log u = hb_log s @ [(t, cmd, Inr ())] \<and> hb_app u = hb_app s \<and> hb_prog u = hb_prog s \<and>
     hb_writes u = hb_writes s \<and> hb_oneshot u = (hb_oneshot s)(wc_response cmd \<mapsto> Replied (Inr ()))"
proof -
  let ?dev = "app_tasks (hb_app s) ! t"
  define v where "v = run_task t (on_connect (pn_ops P ?dev) ?dev) s"
  have 1: "hub_step L P s (Attempts t) v" unfolding v_def by (rule attempts [OF assms(2,3)])
  have t: "t < length (hb_tasks s)" using assms(2) by (simp add: running_def)
  have v: "running t v" "phase_of t v = Polling" "tk_client (hb_tasks v ! t) = c"
    "app_tasks (hb_app v) = app_tasks (hb_app s)" "hb_chan v t = cmd # cmds" "hb_log v = hb_log s"
    "hb_app v = hb_app s" "hb_prog v = hb_prog s" "hb_writes v = hb_writes s" "hb_oneshot v = hb_oneshot s"
    using assms t by (simp_all add: v_def running_def on_connect_def run_task_def Let_def phase_of_def)
  define u where "u = run_task t
       (on_write (pn_ops P (app_tasks (hb_app v) ! t)) (wc_register cmd) (wc_value cmd))
       (v\<lparr>hb_chan := (hb_chan v)(t := cmds),
          hb_oneshot := (hb_oneshot v)(wc_response cmd \<mapsto> Replied (Inr ())),
          hb_log := hb_log v @ [(t, cmd, Inr ())]\<rparr>)"
  have 2: "hub_step L P v (Takes t) u"
    unfolding u_def by (rule takes [OF v(1,2,5)]) (use v(3,4) assms(6) in simp)
  have "hb_app u = hb_app s"
    using v assms(6) by (simp add: u_def run_task_def on_write_def Let_def split_beta)
  moreover have "hb_log u = hb_log s @ [(t, cmd, Inr ())]" "hb_prog u = hb_prog s"
    "hb_writes u = hb_writes s" "hb_oneshot u = (hb_oneshot s)(wc_response cmd \<mapsto> Replied (Inr ()))"
    by (simp_all add: u_def v)
  ultimately show ?thesis using 1 2 by blast
qed

text \<open>The same write, performed.\<close>
lemma sample_done:
  "\<exists>s v u. runs (hub_step sample_libs (sample_plant True)) (hub_start (sample_plant True) sample_running)
       (write_events 1) s \<and> hb_chan s 0 = [command sample_write 0] \<and>
     hub_step sample_libs (sample_plant True) s (Attempts 0) v \<and>
     hub_step sample_libs (sample_plant True) v (Takes 0) u \<and>
     (0, command sample_write 0, Inr ()) \<in> set (hb_log u) \<and> hb_prog u 0 = Some Awaiting \<and>
     hb_writes u 0 = Some (None, sample_write) \<and> hb_oneshot u 0 = Some (Replied (Inr ()))"
proof -
  let ?P = "sample_plant True"
  obtain s where s: "runs (hub_step sample_libs ?P) (hub_start ?P sample_running) (write_events 1) s"
    "hb_app s = sample_running" "hb_tasks s = more_tasks ?P sample_running []"
    "hb_chan s 0 = [command sample_write 0]" "hb_prog s 0 = Some Awaiting"
    "hb_writes s 0 = Some (None, sample_write)"
    using sample_queued by blast
  have t: "running 0 s" "phase_of 0 s = Connecting" "dc_poll_rate_ms (app_tasks (hb_app s) ! 0) \<noteq> 0"
    by (simp_all add: running_def phase_of_def s sample_running_simps more_tasks_def start_task_def
        sample_device_def)
  have c: "plc_connect (pn_ops ?P dev) x = (Inr (), ())" "plc_write (pn_ops ?P dev) reg v x = (Inr (), ())"
    for dev x reg v by (simp_all add: sample_plant_def sample_ops_def)
  obtain v u where "hub_step sample_libs ?P s (Attempts 0) v" "hub_step sample_libs ?P v (Takes 0) u"
    "hb_log u = hb_log s @ [(0, command sample_write 0, Inr ())]" "hb_prog u = hb_prog s"
    "hb_writes u = hb_writes s"
    "hb_oneshot u = (hb_oneshot s)(wc_response (command sample_write 0) \<mapsto> Replied (Inr ()))"
    using performs [OF s(4) t c, of sample_libs] by blast
  then show ?thesis using s by (intro exI [of _ s] exI [of _ v] exI [of _ u]) simp
qed

section \<open>Every command once\<close>

text \<open>
  C3: No write command is lost, and success is never claimed wrongly. In every state that requests,
  clients, device tasks and changes of the registry can reach in any interleaving, no channel holds more
  than its 32 places; a request that waits for its answer has it, or its command waits in the
  channel of exactly one task, one that runs; and a request that was answered with success
  had its command performed by a device client without an error.
\<close>
theorem writes_delivered:
  assumes "registry_ok a" and "runs (hub_step L P) (hub_start P a) es s"
  shows "length (hb_chan s t) \<le> CHANNEL_CAPACITY \<and>
    (hb_prog s i = Some Awaiting \<longrightarrow>
       hb_oneshot s i \<noteq> None \<or> (\<exists>!t. running t s \<and> i \<in> set (pending t s))) \<and>
    (hb_prog s i = Some (Finished r) \<and> success r \<longrightarrow>
       (\<exists>t cmd. (t, cmd, Inr ()) \<in> set (hb_log s) \<and> wc_response cmd = i))"
proof -
  have ok: "channels_ok s" "unique_ok s" "answers_ok s"
    using hub_ok_runs [OF assms] by (simp_all add: hub_ok_def)
  have "running v s" if "i \<in> set (pending v s)" for v
  proof -
    have "hb_chan s v \<noteq> []" using that by (auto simp: pending_def)
    then show ?thesis using ok(1) by (simp add: channels_ok_def)
  qed
  then have "hb_oneshot s i \<noteq> None \<or> (\<exists>!t. running t s \<and> i \<in> set (pending t s))"
    if "hb_prog s i = Some Awaiting"
    using answers_okD(1) [OF ok(3) that] unique_okD(3) [OF ok(2)] by blast
  moreover have "length (hb_chan s t) \<le> CHANNEL_CAPACITY" using ok(1) by (simp add: channels_ok_def)
  ultimately show ?thesis using answers_okD(3) [OF ok(3)] by blast
qed

theorem writes_delivered_witness:
  "\<exists>s. hb_prog s 0 = Some Awaiting \<and> hb_oneshot s 0 = None \<and>
     (\<exists>!t. running t (s :: unit hub) \<and> 0 \<in> set (pending t s))"
proof -
  let ?P = "sample_plant True"
  obtain s where s: "runs (hub_step sample_libs ?P) (hub_start ?P sample_running) (write_events 1) s"
    "hb_chan s 0 = [command sample_write 0]" "hb_prog s 0 = Some Awaiting"
    using sample_queued by blast
  have "unique_ok s" using hub_ok_runs [OF sample_running_ok s(1)] by (simp add: hub_ok_def)
  then have "hb_oneshot s 0 = None" by (rule unique_okD(5) [where t = 0]) (simp add: pending_def s(2))
  then show ?thesis using writes_delivered [OF sample_running_ok s(1), of 0 0] s(3) by blast
qed





section \<open>Answers\<close>

definition due :: "nat \<Rightarrow> nat \<Rightarrow> nat \<Rightarrow> 'c hub \<Rightarrow> bool" where
  "due t i n s \<longleftrightarrow> hb_oneshot s i \<noteq> None \<or>
     (\<exists>k < length (hb_chan s t). k < n \<and> wc_response (hb_chan s t ! k) = i)"

lemma due_step:
  assumes "hub_step L P s e u" and "due t i n s"
  shows "due t i (if e = Takes t then n - 1 else n) u"
  using assms
proof (induction rule: hub_step.induct)
  case (places s k ch c req)
  then show ?case by (auto simp: due_def nth_append)
next
  case (takes v s cmd cmds r cl)
  show ?case
  proof (cases "v = t \<and> hb_oneshot s i = None \<and> wc_response cmd \<noteq> i")
    case True
    then have c: "hb_chan s t = cmd # cmds" using takes(3) by simp
    have "\<exists>k < length (hb_chan s t). k < n \<and> wc_response (hb_chan s t ! k) = i"
      using takes(5) True by (simp add: due_def)
    then obtain k where k: "k < length (cmd # cmds)" "k < n" "wc_response ((cmd # cmds) ! k) = i"
      unfolding c by blast
    then obtain m where "k = Suc m" using True by (cases k) auto
    with k True show ?thesis by (auto simp: due_def)
  next
    case False
    with takes(5) show ?thesis by (auto simp: due_def)
  qed
qed (auto simp: due_def pending_def)

lemma due_runs:
  "runs (hub_step L P) s es u \<Longrightarrow> due t i n s \<Longrightarrow> due t i (n - length (filter ((=) (Takes t)) es)) u"
proof (induction rule: runs.induct)
  case (runs_more s es u e v)
  then show ?case
    using due_step [OF runs_more(2), of t i "n - length (filter ((=) (Takes t)) es)"]
    by (cases "e = Takes t") auto
qed simp



section \<open>A full channel\<close>

definition offline :: "'c plant \<Rightarrow> device_config \<Rightarrow> bool" where
  "offline P dev \<longleftrightarrow> (\<forall>c. \<exists>e c'. plc_connect (pn_ops P dev) c = (Inl e, c'))"

definition blocked :: "nat \<Rightarrow> nat \<Rightarrow> nat \<Rightarrow> registry_change \<Rightarrow> 'c hub \<Rightarrow> bool" where
  "blocked t i j x s \<longleftrightarrow> hb_prog s i = Some (Sending t) \<and> length (hb_chan s t) = CHANNEL_CAPACITY \<and>
     running t s \<and> (phase_of t s = Connecting \<or> phase_of t s = Pausing) \<and>
     (\<exists>ws. hb_lock s = ChangeReq j x # ws)"

lemma on_connect_offline:
  assumes "offline P dev" shows "tk_phase (on_connect (pn_ops P dev) dev k) = Pausing"
proof -
  obtain e c where "plc_connect (pn_ops P dev) (tk_client k) = (Inl e, c)"
    using assms unfolding offline_def by blast
  then show ?thesis by (simp add: on_connect_def)
qed

definition stuck :: "'c plant \<Rightarrow> nat \<Rightarrow> nat \<Rightarrow> nat \<Rightarrow> registry_change \<Rightarrow> (string \<times> device_handle) list \<Rightarrow> nat set \<Rightarrow>
    device_config list \<Rightarrow> 'c hub \<Rightarrow> bool" where
  "stuck P t i j x devs ans tasks s \<longleftrightarrow> blocked t i j x s \<and> app_devices (hb_app s) = devs \<and>
     hb_answered s = ans \<and> app_tasks (hb_app s) = tasks \<and> hb_saving s = Map.empty \<and>
     offline P (tasks ! t)"

lemma stuck_step:
  assumes "hub_step L P s e u" and "e \<notin> {Leaves i}" and "stuck P t i j x devs ans tasks s"
  shows "stuck P t i j x devs ans tasks u"
  using assms
proof (induction rule: hub_step.induct)
  case (grants_change s k y ws)
  then show ?case by (auto simp: stuck_def blocked_def readers_def)
next
  case (answers s k c req y r a)
  have "app_devices a = app_devices (hb_app s)" "app_tasks a = app_tasks (hb_app s)"
    "app_stopped a = app_stopped (hb_app s)"
    using answers(4) by (auto simp: write_finish_def audit_as_def Let_def split: option.splits sum.splits)
  then show ?case using answers by (auto simp: stuck_def blocked_def running_def)
next
  case (attempts v s)
  then show ?case by (auto simp: stuck_def blocked_def running_def on_connect_offline)
qed (auto simp: stuck_def blocked_def running_def same_devices_def)


text \<open>
  One write more, and a request to remove a device: the write waits for a place in the channel with the
  read lock in its hands, the removal for the write lock, and everybody else for the removal.
\<close>
definition blocking_events :: "nat \<Rightarrow> hub_event list" where
  "blocking_events j = write_events CHANNEL_CAPACITY @ [Asks CHANNEL_CAPACITY, Granted, Asks j]"

lemma blocking_run:
  assumes "write_target req a = Inr t" and "t \<notin> app_stopped a" and "t < length (app_tasks a)"
    and "offline P (app_tasks a ! t)"
  shows "\<exists>s. runs (hub_step L P) (hub_start P a) (blocking_events j) s \<and>
     stuck P t CHANNEL_CAPACITY j (DropHandle d) (app_devices a) {} (app_tasks a) s"
proof -
  let ?n = CHANNEL_CAPACITY
  obtain s where s: "runs (hub_step L P) (hub_start P a) (write_events ?n) s" "hb_app s = a"
    "hb_tasks s = more_tasks P a []" "hb_chan s t = map (command req) [0..<?n]" "hb_lock s = []"
    "hb_asked s = {}" "hb_answered s = {}" "hb_saving s = Map.empty" "\<forall>i \<ge> ?n. hb_prog s i = None"
    using fill_channel [OF assms(1,2), of ?n L P] by blast
  define s1 where "s1 = set_progress ?n Locking
    (s\<lparr>hb_writes := (hb_writes s)(?n \<mapsto> (None, req)), hb_lock := hb_lock s @ [WriteReq ?n]\<rparr>)"
  have 1: "hub_step L P s (Asks ?n) s1" unfolding s1_def by (rule asks_write) (simp add: s)
  define s2 where "s2 = set_progress ?n (case write_target req (hb_app s1) of
        Inl r \<Rightarrow> Finished r | Inr ch \<Rightarrow> Sending ch) (s1\<lparr>hb_lock := []\<rparr>)"
  have 2: "hub_step L P s1 Granted s2"
    unfolding s2_def by (rule grants_write [where c = None]) (simp_all add: s s1_def)
  define s3 where "s3 = s2\<lparr>hb_asked := insert j (hb_asked s2),
    hb_lock := hb_lock s2 @ [ChangeReq j (DropHandle d)]\<rparr>"
  have 3: "hub_step L P s2 (Asks j) s3" unfolding s3_def
    by (rule asks_registry) (simp_all add: s s1_def s2_def set_progress_def)
  have "runs (hub_step L P) (hub_start P a) (blocking_events j) s3"
    using runs_three [where step = "hub_step L P", OF s(1) 1 2 3] by (simp add: blocking_events_def)
  moreover have "phase_of t s3 = Connecting"
    using assms(3) by (simp add: phase_of_def s s1_def s2_def s3_def more_tasks_def start_task_def)
  then have "stuck P t ?n j (DropHandle d) (app_devices a) {} (app_tasks a) s3"
    using assms s by (simp add: stuck_def blocked_def running_def s1_def s2_def s3_def)
  ultimately show ?thesis by blast
qed

interpretation stuck_kept: kept "hub_step L P" "{Leaves i}" "stuck P t i j x devs ans tasks"
  for L P t i j x devs ans tasks
  by unfold_locales (rule stuck_step)



section \<open>Abandoned writes\<close>

lemma abandoned_step: "hub_step L P s e u \<Longrightarrow> hb_prog s i = Some Abandoned \<Longrightarrow> hb_prog u i = Some Abandoned"
  by (induction rule: hub_step.induct) auto

interpretation abandoned_kept: kept "hub_step L P" "{}" "\<lambda>s. hb_prog s i = Some Abandoned" for L P i
  by unfold_locales (rule abandoned_step)

text \<open>
  C12: A write that nobody waits for any more is still performed, and leaves no audit entry. The command
  waits in the channel of a device that is not connected, its client gives up, and the handler with it;
  when the device is connected at last, the task writes the stale value, and the handler that would
  have recorded the write never runs again.
\<close>
theorem abandoned_write_performed:
  assumes "hb_prog s (wc_response cmd) = Some Awaiting" and "hb_chan s t = cmd # cmds"
    and "running t s" and "phase_of t s = Connecting"
    and "dc_poll_rate_ms (app_tasks (hb_app s) ! t) \<noteq> 0"
    and "plc_connect (pn_ops P (app_tasks (hb_app s) ! t)) (tk_client (hb_tasks s ! t)) = (Inr (), c)"
    and "plc_write (pn_ops P (app_tasks (hb_app s) ! t)) (wc_register cmd) (wc_value cmd) c = (Inr (), c')"
  shows "\<exists>u. runs (hub_step L P) s [Leaves (wc_response cmd), Attempts t, Takes t] u \<and>
     (t, cmd, Inr ()) \<in> set (hb_log u) \<and>
     audit_trail (app_db (hb_app u)) = audit_trail (app_db (hb_app s)) \<and>
     (\<forall>es v. runs (hub_step L P) u es v \<longrightarrow> hb_prog v (wc_response cmd) = Some Abandoned)"
proof -
  let ?i = "wc_response cmd"
  define s1 where "s1 = set_progress ?i Abandoned
       (s\<lparr>hb_lock := filter (\<lambda>w. w \<noteq> WriteReq ?i) (hb_lock s)\<rparr>)"
  have 1: "hub_step L P s (Leaves ?i) s1"
    unfolding s1_def by (rule leaves) (use assms(1) in auto)
  have s1: "hb_tasks s1 = hb_tasks s" "hb_app s1 = hb_app s" "hb_chan s1 t = cmd # cmds"
    "hb_prog s1 ?i = Some Abandoned" "running t s1" "phase_of t s1 = Connecting"
    using assms(2-4) by (simp_all add: s1_def running_def)
  have "\<exists>v u. hub_step L P s1 (Attempts t) v \<and> hub_step L P v (Takes t) u \<and>
     hb_log u = hb_log s1 @ [(t, cmd, Inr ())] \<and> hb_app u = hb_app s1 \<and> hb_prog u = hb_prog s1 \<and>
     hb_writes u = hb_writes s1 \<and> hb_oneshot u = (hb_oneshot s1)(wc_response cmd \<mapsto> Replied (Inr ()))"
    by (rule performs [OF s1(3,5,6)]) (use assms(5-7) s1 in simp_all)
  then obtain v u where u: "hub_step L P s1 (Attempts t) v" "hub_step L P v (Takes t) u"
    "hb_log u = hb_log s1 @ [(t, cmd, Inr ())]" "hb_app u = hb_app s" "hb_prog u = hb_prog s1"
    using s1(2) by auto
  have "runs (hub_step L P) s [Leaves ?i, Attempts t, Takes t] u"
    using runs_three [where step = "hub_step L P", OF runs_none 1 u(1,2)] by simp
  moreover have "hb_prog w ?i = Some Abandoned" if "runs (hub_step L P) u es w" for es w
    using abandoned_kept.runs_keep [OF that] u(5) s1(4) by simp
  ultimately show ?thesis using u(3,4) by auto
qed

theorem abandoned_write_performed_witness:
  "\<exists>s u. runs (hub_step sample_libs (sample_plant True)) (hub_start (sample_plant True) sample_running)
       (write_events 1) s \<and>
     runs (hub_step sample_libs (sample_plant True)) s [Leaves 0, Attempts 0, Takes 0] u \<and>
     hb_log u \<noteq> [] \<and> hb_prog u 0 = Some Abandoned"
proof -
  let ?P = "sample_plant True"
  obtain s where s: "runs (hub_step sample_libs ?P) (hub_start ?P sample_running) (write_events 1) s"
    "hb_app s = sample_running" "hb_tasks s = more_tasks ?P sample_running []"
    "hb_chan s 0 = [command sample_write 0]" "hb_prog s 0 = Some Awaiting"
    using sample_queued by blast
  have t: "running 0 s" "phase_of 0 s = Connecting" "app_tasks (hb_app s) ! 0 = sample_device"
    by (simp_all add: running_def phase_of_def s sample_running_simps more_tasks_def start_task_def)
  have c: "plc_connect (pn_ops ?P dev) x = (Inr (), ())" "plc_write (pn_ops ?P dev) reg v x = (Inr (), ())"
    for dev x reg v by (simp_all add: sample_plant_def sample_ops_def)
  have z: "hb_prog s (wc_response (command sample_write 0)) = Some Awaiting"
    "dc_poll_rate_ms (app_tasks (hb_app s) ! 0) \<noteq> 0"
    by (simp_all add: s(5) t(3) sample_device_def)
  have "\<exists>u. runs (hub_step sample_libs ?P) s [Leaves 0, Attempts 0, Takes 0] u \<and>
     (0, command sample_write 0, Inr ()) \<in> set (hb_log u) \<and>
     (\<forall>es v. runs (hub_step sample_libs ?P) u es v \<longrightarrow> hb_prog v 0 = Some Abandoned)"
    using abandoned_write_performed [OF z(1) s(4) t(1,2) z(2) c, of sample_libs]
    unfolding command_simps by blast
  then obtain u where u: "runs (hub_step sample_libs ?P) s [Leaves 0, Attempts 0, Takes 0] u"
    "(0, command sample_write 0, Inr ()) \<in> set (hb_log u)"
    "\<forall>es v. runs (hub_step sample_libs ?P) u es v \<longrightarrow> hb_prog v 0 = Some Abandoned" by blast
  have "hb_prog u 0 = Some Abandoned" by (rule u(3) [rule_format, OF runs_none])
  moreover have "hb_log u \<noteq> []" using u(2) by auto
  ultimately show ?thesis using s(1) u(1) by blast
qed

end
