(* ===== verification/Settle.thy ===== *)
theory Settle
  imports Writes
begin

text \<open>
  The write path and the registry requests of the theory \<open>Hub\<close> come to rest: a measure of the work that open
  requests, the queue of the lock and the channels still hold, which every step of theirs lowers.
\<close>

section \<open>Requests settle\<close>

text \<open>The steps that a write request, a request at the lock and a command may still need.\<close>
fun stage :: "progress \<Rightarrow> nat" where
  "stage Locking = 4" | "stage (Sending ch) = 3" | "stage Awaiting = 1" | "stage (Finished r) = 0"
| "stage Abandoned = 0"

fun lock_steps :: "waiter \<Rightarrow> nat" where
  "lock_steps (WriteReq i) = 0" | "lock_steps (ListReq i) = 1" | "lock_steps (CheckReq i k) = 3"
| "lock_steps (ChangeReq i x) = 2"

definition open_writes :: "'c hub \<Rightarrow> nat set" where
  "open_writes s = {i. hb_prog s i \<noteq> None \<and> stage (the (hb_prog s i)) \<noteq> 0}"

definition write_work :: "'c hub \<Rightarrow> nat" where
  "write_work s = (\<Sum>i \<in> dom (hb_prog s). stage (the (hb_prog s i)))"

definition lock_work :: "'c hub \<Rightarrow> nat" where
  "lock_work s = sum_list (map lock_steps (hb_lock s))"

definition channel_work :: "'c hub \<Rightarrow> nat" where
  "channel_work s = (\<Sum>t < length (hb_tasks s). length (hb_chan s t))"

definition work :: "'c hub \<Rightarrow> nat" where
  "work s = write_work s + lock_work s + channel_work s + card (dom (hb_saving s))"

text \<open>Events that bring nothing new: no request arrives, and the tasks only take commands.\<close>
fun settling :: "hub_event \<Rightarrow> bool" where
  "settling Serves \<longleftrightarrow> False" | "settling (Asks i) \<longleftrightarrow> False" | "settling (Polls t) \<longleftrightarrow> False"
| "settling (Attempts t) \<longleftrightarrow> False" | "settling (Resumes t) \<longleftrightarrow> False" | "settling (Dies t) \<longleftrightarrow> False"
| "settling e \<longleftrightarrow> True"

lemma work_simps [simp]:
  "write_work (s\<lparr>hb_lock := w\<rparr>) = write_work s" "write_work (s\<lparr>hb_app := a\<rparr>) = write_work s"
  "write_work (s\<lparr>hb_chan := c\<rparr>) = write_work s" "write_work (run_task t f s) = write_work s"
  "write_work (with_app P a s) = write_work s" "write_work (s\<lparr>hb_answered := z\<rparr>) = write_work s"
  "write_work (s\<lparr>hb_oneshot := q\<rparr>) = write_work s" "write_work (s\<lparr>hb_log := l\<rparr>) = write_work s"
  "lock_work (set_progress i x s) = lock_work s" "lock_work (s\<lparr>hb_app := a\<rparr>) = lock_work s"
  "lock_work (s\<lparr>hb_chan := c\<rparr>) = lock_work s" "lock_work (run_task t f s) = lock_work s"
  "lock_work (with_app P a s) = lock_work s" "lock_work (s\<lparr>hb_answered := z\<rparr>) = lock_work s"
  "lock_work (s\<lparr>hb_lock := w\<rparr>) = sum_list (map lock_steps w)"
  "lock_work (s\<lparr>hb_oneshot := q\<rparr>) = lock_work s" "lock_work (s\<lparr>hb_log := l\<rparr>) = lock_work s"
  "channel_work (set_progress i x s) = channel_work s" "channel_work (s\<lparr>hb_app := a\<rparr>) = channel_work s"
  "channel_work (s\<lparr>hb_lock := w\<rparr>) = channel_work s" "channel_work (run_task t f s) = channel_work s"
  "channel_work (s\<lparr>hb_answered := z\<rparr>) = channel_work s" "channel_work (s\<lparr>hb_saving := m\<rparr>) = channel_work s"
  "write_work (s\<lparr>hb_saving := m\<rparr>) = write_work s" "lock_work (s\<lparr>hb_saving := m\<rparr>) = lock_work s"
  "channel_work (s\<lparr>hb_oneshot := q\<rparr>) = channel_work s" "channel_work (s\<lparr>hb_log := l\<rparr>) = channel_work s"
  by (simp_all add: write_work_def lock_work_def channel_work_def)

text \<open>One request moves on.\<close>
lemma write_work_progress:
  assumes "finite (dom (hb_prog s))" and "hb_prog s i = Some x"
  shows "write_work (set_progress i y s) + stage x = write_work s + stage y"
proof -
  let ?D = "dom (hb_prog s) - {i}"
  have d: "dom (hb_prog s) = insert i ?D" using assms(2) by auto
  have "write_work s = stage x + (\<Sum>j \<in> ?D. stage (the (hb_prog s j)))"
    unfolding write_work_def using assms by (subst d) (simp add: sum.insert_remove)
  moreover have "write_work (set_progress i y s) = stage y + (\<Sum>j \<in> ?D. stage (the (hb_prog s j)))"
    unfolding write_work_def using assms by (simp add: insert_absorb sum.insert_remove)
  ultimately show ?thesis by simp
qed

lemma channel_work_with_app:
  assumes "\<And>t. hb_chan s t \<noteq> [] \<Longrightarrow> t < length (hb_tasks s)"
  shows "channel_work (with_app P a s) \<le> channel_work s"
proof -
  let ?n = "length (hb_tasks s)" and ?m = "max (length (hb_tasks s)) (length (app_tasks a))"
  have "hb_chan s t = []" if "?n \<le> t" for t
    using assms [of t] that by force
  then have "(\<Sum>t < ?m. length (hb_chan s t)) = channel_work s"
    unfolding channel_work_def by (intro sum.mono_neutral_right) auto
  moreover have "channel_work (with_app P a s) \<le> (\<Sum>t < ?m. length (hb_chan s t))"
    unfolding channel_work_def by (simp add: sum_mono)
  ultimately show ?thesis by simp
qed

lemma channel_work_granted:
  assumes "channels_ok s" and "hb_tasks s' = hb_tasks s" and "hb_chan s' = hb_chan s"
  shows "channel_work (with_app P a s') \<le> channel_work s"
proof -
  have "t < length (hb_tasks s)" if "hb_chan s t \<noteq> []" for t
    using assms(1) that by (auto simp: channels_ok_def running_def)
  then have "channel_work (with_app P a s') \<le> channel_work s'"
    using assms(2,3) by (intro channel_work_with_app) simp
  then show ?thesis using assms(2,3) by (simp add: channel_work_def)
qed

lemma channel_work_update:
  assumes "t < length (hb_tasks s)"
  shows "channel_work (s\<lparr>hb_chan := (hb_chan s)(t := cs)\<rparr>) + length (hb_chan s t) =
     channel_work s + length cs"
proof -
  let ?D = "{..<length (hb_tasks s)} - {t}"
  have d: "{..<length (hb_tasks s)} = insert t ?D" using assms by auto
  have "channel_work s = length (hb_chan s t) + (\<Sum>j \<in> ?D. length (hb_chan s j))"
    unfolding channel_work_def by (subst d) (simp add: sum.insert_remove)
  moreover have "channel_work (s\<lparr>hb_chan := (hb_chan s)(t := cs)\<rparr>) =
      length cs + (\<Sum>j \<in> ?D. length (hb_chan s j))"
    unfolding channel_work_def by (simp, subst d) (simp add: sum.insert_remove)
  ultimately show ?thesis by simp
qed

lemma settling_step:
  assumes "hub_step L P s e u" and "settling e" and "channels_ok s" and "finite (dom (hb_prog s))"
    and "finite (dom (hb_saving s))"
  shows "work u < work s"
  using assms
proof (induction rule: hub_step.induct)
  case (grants_write s i ws c req)
  let ?x = "case write_target req (hb_app s) of Inl r \<Rightarrow> Finished r | Inr ch \<Rightarrow> Sending ch"
  have "stage ?x < 4" by (simp split: sum.split)
  moreover have "write_work (set_progress i ?x (s\<lparr>hb_lock := ws\<rparr>)) + 4 = write_work s + stage ?x"
    using write_work_progress [of "s\<lparr>hb_lock := ws\<rparr>" i Locking] grants_write by simp
  ultimately show ?case using grants_write(1) by (simp add: work_def lock_work_def [of s])
next
  case (grants_list s i ws)
  then show ?case by (simp add: work_def lock_work_def [of s])
next
  case (grants_check s i k ws a)
  then show ?case
    using channel_work_granted [of s "s\<lparr>hb_lock := ws, hb_answered := insert i (hb_answered s)\<rparr>" P a]
    by (simp add: work_def lock_work_def [of s])
next
  case (grants_start s i k ws x a)
  then show ?case
    using channel_work_granted [of s "s\<lparr>hb_lock := ws @ [ChangeReq i x]\<rparr>" P a]
    by (simp add: work_def lock_work_def [of s])
next
  case (grants_change s i x ws)
  let ?s = "s\<lparr>hb_lock := ws,
       hb_answered := (if to_save x = None then insert i (hb_answered s) else hb_answered s),
       hb_saving := (hb_saving s)(i := to_save x)\<rparr>"
  have "channel_work (with_app P (run_change x (hb_app s)) ?s) \<le> channel_work s"
    by (rule channel_work_granted [OF grants_change(4)]) simp_all
  moreover have "card (dom ((hb_saving s)(i := to_save x))) \<le> Suc (card (dom (hb_saving s)))"
  proof -
    have "dom ((hb_saving s)(i := to_save x)) \<subseteq> insert i (dom (hb_saving s))" by auto
    from card_mono [OF _ this] have "card (dom ((hb_saving s)(i := to_save x))) \<le>
        card (insert i (dom (hb_saving s)))" using grants_change(6) by simp
    also have "\<dots> \<le> Suc (card (dom (hb_saving s)))" using grants_change(6) by (simp add: card_insert_if)
    finally show ?thesis .
  qed
  ultimately show ?case
    using grants_change(1) by (simp add: work_def lock_work_def [of s])
next
  case (saves s i dev)
  have "card (dom ((hb_saving s)(i := None))) < card (dom (hb_saving s))"
    unfolding dom_fun_upd if_P [OF refl] using saves(1,5) by (intro card_Diff1_less) auto
  then show ?case by (simp add: work_def lock_work_def write_work_def channel_work_def)
next
  case (places s i ch c req)
  let ?s = "s\<lparr>hb_chan := (hb_chan s)(ch := hb_chan s ch @ [command req i])\<rparr>"
  have "ch < length (hb_tasks s)" using places(1,6) by (auto simp: channels_ok_def)
  then have "channel_work ?s = channel_work s + 1"
    using channel_work_update [of ch s "hb_chan s ch @ [command req i]"] by simp
  moreover have "write_work (set_progress i Awaiting ?s) + 3 = write_work s + 1"
    using write_work_progress [of ?s i "Sending ch" Awaiting] places(1,7) by simp
  ultimately show ?case by (simp add: work_def lock_work_def)
next
  case (refuses s i ch)
  then show ?case
    using write_work_progress [of s i "Sending ch" "Finished write_closed"] by (simp add: work_def)
next
  case (answers s i c req x r a)
  then show ?case
    using write_work_progress [of "s\<lparr>hb_app := a\<rparr>" i Awaiting "Finished r"] by (simp add: work_def lock_work_def)
next
  case (leaves s i x ch)
  have "sum_list (map lock_steps (filter (\<lambda>w. w \<noteq> WriteReq i) (hb_lock s))) \<le> lock_work s"
    unfolding lock_work_def by (induction "hb_lock s") (auto simp: sum_list_filter_le_nat)
  then show ?case
    using write_work_progress [of "s\<lparr>hb_lock := filter (\<lambda>w. w \<noteq> WriteReq i) (hb_lock s)\<rparr>" i x Abandoned] leaves
    by (auto simp: work_def)
next
  case (takes t s cmd cmds r cl)
  have "t < length (hb_tasks s)" using takes(1) by (simp add: running_def)
  then have "channel_work (s\<lparr>hb_chan := (hb_chan s)(t := cmds)\<rparr>) < channel_work s"
    using channel_work_update [of t s cmds] takes(3) by simp
  then show ?case by (simp add: work_def lock_work_def channel_work_def write_work_def)
qed simp_all


lemma finite_step:
  "hub_step L P s e u \<Longrightarrow> finite (dom (hb_prog s)) \<and> finite (dom (hb_saving s)) \<Longrightarrow>
     finite (dom (hb_prog u)) \<and> finite (dom (hb_saving u))"
  by (induction rule: hub_step.induct) auto

interpretation finite_kept: kept "hub_step L P" "{}"
    "\<lambda>s. finite (dom (hb_prog s)) \<and> finite (dom (hb_saving s))" for L P
  by unfold_locales (rule finite_step)

lemma settling_run:
  "runs (hub_step L P) s es u \<Longrightarrow> \<forall>e \<in> set es. settling e \<Longrightarrow> hub_ok s \<Longrightarrow>
     finite (dom (hb_prog s)) \<and> finite (dom (hb_saving s)) \<Longrightarrow> length es + work u \<le> work s"
proof (induction rule: runs.induct)
  case (runs_more s es t e u)
  have "hub_ok t" "finite (dom (hb_prog t))" "finite (dom (hb_saving t))"
    using hub_kept.runs_keep [OF runs_more(1)] finite_kept.runs_keep [OF runs_more(1)] runs_more(5,6)
    by simp_all
  then have "work u < work t" using settling_step [OF runs_more(2)] runs_more(4) by (simp add: hub_ok_def)
  then show ?case using runs_more by simp
qed simp

lemma work_bound:
  assumes "channels_ok s" and "finite (dom (hb_prog s))"
  shows "work s \<le> 4 * card (open_writes s) + 3 * length (hb_lock s) +
    CHANNEL_CAPACITY * length (hb_tasks s) + card (dom (hb_saving s))"
proof -
  have "stage x \<le> 4" for x by (cases x) simp_all
  then have "(\<Sum>i \<in> open_writes s. stage (the (hb_prog s i))) \<le> card (open_writes s) * 4"
    using sum_bounded_above [of "open_writes s" "\<lambda>i. stage (the (hb_prog s i))" 4] by simp
  moreover have "write_work s = (\<Sum>i \<in> open_writes s. stage (the (hb_prog s i)))"
    unfolding write_work_def using assms(2)
    by (intro sum.mono_neutral_right) (auto simp: open_writes_def)
  moreover have "lock_steps w \<le> 3" for w by (cases w) simp_all
  then have "lock_work s \<le> length (hb_lock s) * 3"
    unfolding lock_work_def using sum_list_mono [of "hb_lock s" lock_steps "\<lambda>_. 3"]
    by (simp add: sum_list_triv)
  moreover have "channel_work s \<le> (\<Sum>t < length (hb_tasks s). CHANNEL_CAPACITY)"
    unfolding channel_work_def using assms(1) by (intro sum_mono) (simp add: channels_ok_def)
  ultimately show ?thesis by (simp add: work_def mult.commute)
qed

text \<open>
  C13: a burst of requests settles. Take any reachable state, and let the write requests, the requests for the
  registry and the tasks that take commands go on in any order, while no new request arrives and the
  tasks do nothing else: this stops, after at most four steps for each open write request, three for each
  request in the queue of the lock, one for each device still to be stored, and the 32 commands that each
  channel can hold. No handler can run in circles, whatever the devices answer.
\<close>
theorem requests_settle:
  assumes "registry_ok a" and "runs (hub_step L P) (hub_start P a) es s"
    and "runs (hub_step L P) s fs u" and "\<forall>e \<in> set fs. settling e"
  shows "length fs \<le> 4 * card (open_writes s) + 3 * length (hb_lock s) +
    CHANNEL_CAPACITY * length (hb_tasks s) + card (dom (hb_saving s))"
proof -
  have ok: "hub_ok s" using assms(1,2) by (rule hub_ok_runs)
  have fin: "finite (dom (hb_prog s)) \<and> finite (dom (hb_saving s))"
    using finite_kept.runs_keep [OF assms(2)] by (simp add: hub_start_def)
  from settling_run [OF assms(3,4) ok fin] work_bound [OF _ fin [THEN conjunct1]] ok show ?thesis
    by (fastforce simp: hub_ok_def)
qed

theorem requests_settle_witness:
  "\<exists>(s :: unit hub) u. runs (hub_step sample_libs (sample_plant True)) s [Leaves 0] u \<and>
     length [Leaves 0] \<le> 4 * card (open_writes s) + 3 * length (hb_lock s) +
       CHANNEL_CAPACITY * length (hb_tasks s) + card (dom (hb_saving s))"
proof -
  let ?P = "sample_plant True"
  obtain s where s: "runs (hub_step sample_libs ?P) (hub_start ?P sample_running) (write_events 1) s"
    "hb_prog s 0 = Some Awaiting"
    using sample_queued by blast
  have "hub_step sample_libs ?P s (Leaves 0)
      (set_progress 0 Abandoned (s\<lparr>hb_lock := filter (\<lambda>w. w \<noteq> WriteReq 0) (hb_lock s)\<rparr>))"
    by (rule leaves [OF s(2)]) simp
  from runs_more [where step = "hub_step sample_libs ?P", OF runs_none this]
  have r: "runs (hub_step sample_libs ?P) s [Leaves 0]
      (set_progress 0 Abandoned (s\<lparr>hb_lock := filter (\<lambda>w. w \<noteq> WriteReq 0) (hb_lock s)\<rparr>))" by simp
  from requests_settle [OF sample_running_ok s(1) r] r show ?thesis by fastforce
qed

end
