(* ===== verification/Trails.thy ===== *)
theory Trails
  imports Writes
begin

text \<open>
  The database under the interleaving of the theory \<open>Hub\<close>: every one of its steps is a step of the
  database in the sense of the theory \<open>System\<close>, so that no record is lost; and an interleaving in which
  a removed device stays in it.
\<close>

section \<open>What the steps record\<close>

lemma moves_run_task:
  "(\<And>k. db_step (tk_world k) (tk_world (f k))) \<Longrightarrow> moves (hb_app s) (hb_app (run_task t f s))"
  by (simp add: run_task_def moves_def Let_def) (metis task.select_convs(6) task.surjective task.update_convs(6))

lemma task_steps_moves [db_steps]:
  "db_step (tk_world k) (tk_world (on_write ops reg v k))" "db_step (tk_world k) (tk_world (on_connect ops dev k))"
  "db_step (tk_world k) (tk_world (on_tick L ops dev k))"
  by (auto simp: on_write_def on_connect_def on_tick_def db_step_refl split_beta Let_def
      split: prod.split sum.split intro: db_steps)

lemma moves_run_check: "run_check L k a = (x, b) \<Longrightarrow> moves a b"
  by (cases k) (auto simp: started_def Let_def split_beta split: if_splits option.splits sum.splits
      intro: moves_intros)

lemma moves_run_change: "moves a (run_change x a)"
  by (cases x) (auto simp: remove_device_def disconnect_device_def Let_def split: option.split
      intro!: moves_intros db_steps)

lemma moves_write_finish: "write_finish L c req y a = (r, b) \<Longrightarrow> moves a b"
  by (auto simp: write_finish_def Let_def split: option.splits sum.splits intro: moves_intros)


lemma hub_moves: "hub_step L P s e u \<Longrightarrow> moves (hb_app s) (hb_app u)"
proof (induction rule: hub_step.induct)
  case (takes t s cmd cmds r cl)
  show ?case
    using moves_run_task [of "on_write (pn_ops P (app_tasks (hb_app s) ! t)) (wc_register cmd) (wc_value cmd)"
        "s\<lparr>hb_chan := (hb_chan s)(t := cmds), hb_oneshot := (hb_oneshot s)(wc_response cmd \<mapsto> Replied r),
           hb_log := hb_log s @ [(t, cmd, r)]\<rparr>" t]
    by (simp add: db_steps)
next
  case (resumes t s)
  show ?case by (rule moves_run_task) (simp add: db_step_refl)
qed (auto intro: moves_run_task db_steps moves_run_check moves_run_change moves_write_finish
    moves_intros db_step_refl)

lemma hub_runs_moves: "runs (hub_step L P) s es u \<Longrightarrow> moves (hb_app s) (hb_app u)"
  by (induction rule: runs.induct) (auto intro: moves_trans hub_moves)



section \<open>A removal that overtakes the storing\<close>

definition overtaken :: "hub_event list" where
  "overtaken = [Asks 0, Granted, Asks 1, Granted, Granted, Saves 0]"

lemma overtaken_run:
  fixes req :: add_device_request
  assumes "reg_get (ar_id req) a = None" and "new_client L (config_of_request req) = Some (Inr ())"
  shows "\<exists>u b. runs (hub_step L P) (hub_start P a) overtaken u \<and>
     hb_app u = do_db (save_device L (config_of_request req)) b \<and> hb_answered u = {0, 1} \<and>
     reg_get (ar_id req) b = None \<and> app_db b = delete_device (ar_id req) (app_db a)"
proof -
  let ?dev = "config_of_request req"
  let ?h = "fst (start_polling ?dev a)" and ?a = "snd (start_polling ?dev a)"
  define s0 where "s0 = hub_start P a"
  have s0: "hb_app s0 = a" "hb_lock s0 = []" "hb_asked s0 = {}" "hb_answered s0 = {}" "hb_prog s0 = Map.empty"
    "hb_saving s0 = Map.empty"
    by (simp_all add: s0_def hub_start_def)
  define s1 where "s1 = s0\<lparr>hb_asked := insert 0 (hb_asked s0), hb_lock := hb_lock s0 @ [CheckReq 0 (CheckAdd req)]\<rparr>"
  have 1: "hub_step L P s0 (Asks 0) s1" unfolding s1_def by (rule asks_registry) (simp_all add: s0)
  have chk: "run_check L (CheckAdd req) (hb_app s1) = (Some (InsertHandle ?dev ?h), ?a)"
    using assms by (simp add: s1_def s0 started_def split_beta)
  define s2 where "s2 = with_app P ?a (s1\<lparr>hb_lock := [] @ [ChangeReq 0 (InsertHandle ?dev ?h)]\<rparr>)"
  have 2: "hub_step L P s1 Granted s2"
    unfolding s2_def by (rule grants_start [OF _ chk]) (simp add: s1_def s0)
  define s3 where "s3 = s2\<lparr>hb_asked := insert 1 (hb_asked s2),
    hb_lock := hb_lock s2 @ [ChangeReq 1 (DropHandle (ar_id req))]\<rparr>"
  have 3: "hub_step L P s2 (Asks 1) s3"
    unfolding s3_def by (rule asks_registry) (simp_all add: s2_def s1_def s0 with_app_def)
  have l3: "hb_lock s3 = [ChangeReq 0 (InsertHandle ?dev ?h), ChangeReq 1 (DropHandle (ar_id req))]"
    "hb_app s3 = ?a" "hb_prog s3 = Map.empty" "hb_answered s3 = {}" "hb_saving s3 = Map.empty"
    by (simp_all add: s3_def s2_def s1_def s0)
  define s4 where "s4 = with_app P (run_change (InsertHandle ?dev ?h) (hb_app s3)) (s3\<lparr>
       hb_lock := [ChangeReq 1 (DropHandle (ar_id req))],
       hb_answered := (if to_save (InsertHandle ?dev ?h) = None then insert 0 (hb_answered s3) else hb_answered s3),
       hb_saving := (hb_saving s3)(0 := to_save (InsertHandle ?dev ?h))\<rparr>)"
  have 4: "hub_step L P s3 Granted s4"
    unfolding s4_def by (rule grants_change) (simp_all add: l3 readers_def)
  have l4: "hb_lock s4 = [ChangeReq 1 (DropHandle (ar_id req))]" "hb_app s4 = reg_insert (ar_id req) ?h ?a"
    "hb_prog s4 = Map.empty" "hb_answered s4 = {}" "hb_saving s4 = [0 \<mapsto> ?dev]"
    by (simp_all add: s4_def l3)
  define s5 where "s5 = with_app P (run_change (DropHandle (ar_id req)) (hb_app s4)) (s4\<lparr>hb_lock := [],
       hb_answered := (if to_save (DropHandle (ar_id req)) = None then insert 1 (hb_answered s4) else hb_answered s4),
       hb_saving := (hb_saving s4)(1 := to_save (DropHandle (ar_id req)))\<rparr>)"
  have 5: "hub_step L P s4 Granted s5"
    unfolding s5_def by (rule grants_change) (simp_all add: l4 readers_def)
  have l5: "hb_app s5 = snd (remove_device (ar_id req) (reg_insert (ar_id req) ?h ?a))" "hb_answered s5 = {1}"
    "hb_saving s5 = [0 \<mapsto> ?dev]"
    by (simp_all add: s5_def l4)
  define s6 where "s6 = s5\<lparr>hb_app := do_db (save_device L ?dev) (hb_app s5),
    hb_answered := insert 0 (hb_answered s5), hb_saving := (hb_saving s5)(0 := None)\<rparr>"
  have 6: "hub_step L P s5 (Saves 0) s6" unfolding s6_def by (rule saves) (simp add: l5)
  have "runs (hub_step L P) s0 overtaken s6"
    using runs_three [where step = "hub_step L P", OF runs_three [where step = "hub_step L P", OF runs_none 1 2 3] 4 5 6]
    by (simp add: overtaken_def)
  moreover have "hb_app s6 = do_db (save_device L ?dev) (hb_app s5)" "hb_answered s6 = {0, 1}"
    by (simp_all add: s6_def l5)
  moreover have db: "app_db (reg_insert i h x) = app_db x" "app_db (reg_remove i x) = app_db x"
    "app_db (abort_task t x) = app_db x" "app_db (snd (start_polling dev x)) = app_db x" for i h x t dev
    by (simp_all add: reg_remove_def reg_insert_def abort_task_def start_polling_def spawn_polling_def)
  have "reg_get (ar_id req) (hb_app s5) = None" "app_db (hb_app s5) = delete_device (ar_id req) (app_db a)"
    by (simp_all add: l5 remove_device_def Let_def db)
  ultimately show ?thesis unfolding s0_def by blast
qed

lemma healthy_delete [simp]: "healthy (delete_device i w) = healthy w"
  by (simp add: delete_device_def sql_def healthy_def split: option.split)

text \<open>
  C21: a removed device may come back for good. The handler that adds a device stores it only after it has given
  the registry's lock back; a removal that gets the lock in between deletes a row that is not there yet. Both
  requests are answered with success, the device is gone from the registry, and its row stays in
  the database: after the next restart it is polled again.
\<close>
theorem removal_overtakes_storing:
  assumes "reg_get (ar_id req) a = None" and "new_client L (config_of_request req) = Some (Inr ())"
    and "healthy (app_db a)" and "u16s_json_roundtrip L"
    and "distinct (map dc_id (ac_devices config))" and "polled_device (ar_id req) (ac_devices config) = None"
  shows "\<exists>u. runs (hub_step L P) (hub_start P a) overtaken u \<and> hb_answered u = {0, 1} \<and>
     reg_get (ar_id req) (hb_app u) = None \<and>
     (\<forall>c. start_devices L config (app_new (app_db (hb_app u)) config) = Some c \<longrightarrow>
        registered c (ar_id req) = Some (config_of_request req))"
proof -
  obtain u b where u: "runs (hub_step L P) (hub_start P a) overtaken u"
    "hb_app u = do_db (save_device L (config_of_request req)) b" "hb_answered u = {0, 1}"
    "reg_get (ar_id req) b = None" "app_db b = delete_device (ar_id req) (app_db a)"
    using overtaken_run [OF assms(1,2)] by blast
  have "polled_device (ar_id req) [config_of_request req] = Some (config_of_request req)"
    using new_client_polled(1) [OF assms(2)] by auto
  then have "registered c (ar_id req) = Some (config_of_request req)"
    if "start_devices L config (app_new (app_db (hb_app u)) config) = Some c" for c
    using start_devices_registered [OF that assms(5), of "ar_id req"] assms(3,4,6)
    by (simp add: u load_saved polled_device_append polled_device_filter)
  with u show ?thesis by auto
qed

theorem removal_overtakes_storing_witness:
  "\<exists>u :: unit hub. hb_answered u = {0, 1} \<and> reg_get ''plc-02'' (hb_app u) = None \<and>
     (\<forall>c. start_devices sample_libs (sample_config\<lparr>ac_devices := []\<rparr>)
        (app_new (app_db (hb_app u)) (sample_config\<lparr>ac_devices := []\<rparr>)) = Some c \<longrightarrow>
        registered c ''plc-02'' = Some (config_of_request sample_request))"
proof -
  have i: "ar_id sample_request = ''plc-02''" by (simp add: sample_request_def)
  have "reg_get (ar_id sample_request) sample_app = None"
    by (simp add: sample_app_def app_new_def reg_get_def)
  moreover have "new_client sample_libs (config_of_request sample_request) = Some (Inr ())"
    by (simp add: new_client_def config_of_request_def sample_request_def)
  moreover have "healthy (app_db sample_app)"
    by (simp add: sample_app_def app_new_def sample_healthy)
  ultimately show ?thesis
    using removal_overtakes_storing [of sample_request sample_app sample_libs "sample_config\<lparr>ac_devices := []\<rparr>"
        "sample_plant True"] sample_u16s_json
    unfolding i by simp blast
qed

end
