(* ===== verification/Fleet.thy ===== *)
theory Fleet
  imports Registry
begin

text \<open>
  The device handlers of \<open>server/src/routes.rs\<close> against a specification without tasks, handles and channels:
  a map from device ids to a configuration and whether the device is polled. The handlers refine it
  as long as they run one after the other; the locale \<open>functional_refinement\<close> carries that from one
  operation to sequences of them.
\<close>

section \<open>The specification\<close>

text \<open>For each device its configuration and whether it is polled.\<close>
type_synonym fleet = "string \<rightharpoonup> device_config \<times> bool"

definition fleet_of :: "app_state \<Rightarrow> fleet" where
  "fleet_of a = (\<lambda>i. map_option (\<lambda>h. (dh_config h, \<not> is_finished a (dh_task h))) (reg_get i a))"

definition can_poll :: "libs \<Rightarrow> device_config \<Rightarrow> bool" where
  "can_poll L dev \<longleftrightarrow> new_client L dev = Some (Inr ())"

fun fleet_op :: "libs \<Rightarrow> registry_op \<Rightarrow> fleet \<Rightarrow> fleet" where
  "fleet_op L (Add req) m =
     (if m (ar_id req) = None \<and> can_poll L (config_of_request req)
      then m(ar_id req \<mapsto> (config_of_request req, True)) else m)"
| "fleet_op L (Remove i) m = m(i := None)"
| "fleet_op L (Disconnect i) m = m(i := map_option (\<lambda>(c, on). (c, False)) (m i))"
| "fleet_op L (Connect i) m = m(i := map_option (\<lambda>(c, on). (c, on \<or> can_poll L c)) (m i))"
| "fleet_op L (Ends i) m = m(i := map_option (\<lambda>(c, on). (c, False)) (m i))"

definition fleet_ops :: "libs \<Rightarrow> registry_op list \<Rightarrow> fleet \<Rightarrow> fleet" where
  "fleet_ops L ops m = fold (fleet_op L) ops m"

section \<open>The refinement\<close>

text \<open>What a task's end and a task's start do to the fleet.\<close>
lemma fleet_abort:
  assumes "registry_ok a" and "reg_get i a = Some h"
  shows "fleet_of (abort_task (dh_task h) a) = (fleet_of a)(i := Some (dh_config h, False))"
proof
  fix j
  have "dh_task k \<noteq> dh_task h" if "reg_get j a = Some k" "j \<noteq> i" for k
    using assms that unfolding registry_ok_def by blast
  then show "fleet_of (abort_task (dh_task h) a) j = ((fleet_of a)(i := Some (dh_config h, False))) j"
    using assms(2) by (cases "reg_get j a") (auto simp: fleet_of_def is_finished_def)
qed

lemma fleet_start:
  assumes "registry_ok a" and "dh_task h = length (app_tasks a)"
  shows "fleet_of (reg_insert i h (snd (start_polling dev a))) = (fleet_of a)(i \<mapsto> (dh_config h, True))"
proof -
  have "length (app_tasks a) \<notin> app_stopped a" using assms(1) by (auto simp: registry_ok_def)
  then show ?thesis using assms(2) by (auto simp: fleet_of_def is_finished_def fun_eq_iff)
qed

lemma fleet_db [simp]: "fleet_of (do_db f a) = fleet_of a"
  by (simp add: fleet_of_def is_finished_def fun_eq_iff)

lemma fleet_step:
  assumes "registry_ok a"
  shows "fleet_of (run_registry_op L x a) = fleet_op L x (fleet_of a)"
proof (cases x)
  case (Add req)
  show ?thesis
  proof (cases "reg_get (ar_id req) a = None \<and> can_poll L (config_of_request req)")
    case True
    then show ?thesis
      using fleet_start [OF assms] by (simp add: Add add_device_def add_device_start_def can_poll_def Let_def split_beta)
        (simp add: fleet_of_def)
  next
    case False
    then show ?thesis
      by (auto simp: Add add_device_def add_device_start_def can_poll_def Let_def fleet_of_def split_beta
          split: option.splits sum.splits)
  qed
next
  case (Remove i)
  show ?thesis
  proof (cases "reg_get i a")
    case None
    then show ?thesis by (auto simp: Remove remove_device_def fleet_of_def)
  next
    case (Some h)
    have "fleet_of (abort_task (dh_task h) (reg_remove i a)) = (fleet_of a)(i := None)"
    proof
      fix j
      show "fleet_of (abort_task (dh_task h) (reg_remove i a)) j = ((fleet_of a)(i := None)) j"
        using fun_cong [OF fleet_abort [OF assms Some], of j]
        by (auto simp: fleet_of_def is_finished_def)
    qed
    then show ?thesis by (simp add: Remove remove_device_def Some Let_def)
  qed
next
  case (Disconnect i)
  then show ?thesis
    using fleet_abort [OF assms, of i]
    by (cases "reg_get i a") (auto simp: disconnect_device_def fleet_of_def [of a] is_finished_def)
next
  case (Connect i)
  show ?thesis
  proof (cases "reg_get i a")
    case None
    then show ?thesis by (auto simp: Connect connect_device_def fleet_of_def)
  next
    case (Some h)
    show ?thesis
    proof (cases "is_finished a (dh_task h) \<and> can_poll L (dh_config h)")
      case True
      then show ?thesis
        using fleet_start [OF assms]
        by (simp add: Connect connect_device_def connect_device_start_def can_poll_def Some Let_def split_beta)
          (simp add: fleet_of_def Some)
    next
      case False
      then show ?thesis
        by (auto simp: Connect connect_device_def connect_device_start_def can_poll_def fleet_of_def Some
            Let_def split_beta fun_eq_iff split: option.splits sum.splits)
    qed
  qed
next
  case (Ends i)
  then show ?thesis
    using fleet_abort [OF assms, of i] by (cases "reg_get i a") (auto simp: fleet_of_def [of a])
qed

text \<open>Steps of a program that refine those of a specification, as long as an invariant holds.\<close>
locale functional_refinement =
  fixes conc :: "'x \<Rightarrow> 's \<Rightarrow> 's" and spec :: "'x \<Rightarrow> 'm \<Rightarrow> 'm" and abs :: "'s \<Rightarrow> 'm" and inv :: "'s \<Rightarrow> bool"
  assumes keeps_inv: "inv s \<Longrightarrow> inv (conc x s)"
    and simulates: "inv s \<Longrightarrow> abs (conc x s) = spec x (abs s)"
begin

lemma sequences: "inv s \<Longrightarrow> inv (fold conc xs s) \<and> abs (fold conc xs s) = fold spec xs (abs s)"
  by (induction xs arbitrary: s) (simp_all add: keeps_inv simulates)

end

interpretation fleet: functional_refinement "run_registry_op L" "fleet_op L" fleet_of registry_ok for L
  by unfold_locales (rule run_registry_op_ok fleet_step; assumption)+

section \<open>Answers\<close>

text \<open>Whether a request is accepted, by its answer and by the specification.\<close>
fun accepted :: "libs \<Rightarrow> registry_op \<Rightarrow> app_state \<Rightarrow> bool" where
  "accepted L (Add req) a \<longleftrightarrow> (case add_device L req a of None \<Rightarrow> False | Some (r, b) \<Rightarrow> success r)"
| "accepted L (Remove i) a \<longleftrightarrow> success (fst (remove_device i a))"
| "accepted L (Disconnect i) a \<longleftrightarrow> success (fst (disconnect_device i a))"
| "accepted L (Connect i) a \<longleftrightarrow> (case connect_device L i a of None \<Rightarrow> False | Some (r, b) \<Rightarrow> success r)"
| "accepted L (Ends i) a \<longleftrightarrow> reg_get i a \<noteq> None"

fun acceptable :: "libs \<Rightarrow> registry_op \<Rightarrow> fleet \<Rightarrow> bool" where
  "acceptable L (Add req) m \<longleftrightarrow> m (ar_id req) = None \<and> can_poll L (config_of_request req)"
| "acceptable L (Remove i) m \<longleftrightarrow> m i \<noteq> None"
| "acceptable L (Disconnect i) m \<longleftrightarrow> (\<exists>c. m i = Some (c, True))"
| "acceptable L (Connect i) m \<longleftrightarrow> (\<exists>c. m i = Some (c, False) \<and> can_poll L c)"
| "acceptable L (Ends i) m \<longleftrightarrow> m i \<noteq> None"

lemma accepted_iff: "accepted L x a \<longleftrightarrow> acceptable L x (fleet_of a)"
  by (cases x) (auto simp: fleet_of_def can_poll_def add_device_def add_device_start_def
      connect_device_def connect_device_start_def remove_device_def disconnect_device_def Let_def
      split_beta split: option.splits sum.splits)

text \<open>The list of devices shows the fleet.\<close>
lemma get_devices_fleet:
  assumes "registry_ok a"
  shows "data (get_devices a) = Some ds \<Longrightarrow>
    set ds = {plc_device_of c on | i c on. fleet_of a i = Some (c, on)} \<and> distinct (map pv_id ds)"
proof -
  let ?f = "\<lambda>(i, h). plc_device_of (dh_config h) (\<not> is_finished a (dh_task h))"
  assume "data (get_devices a) = Some ds"
  then have ds: "ds = map ?f (app_devices a)" by (simp add: get_devices_def)
  have d: "distinct (map fst (app_devices a))" using assms by (simp add: registry_ok_def)
  then have m: "(i, h) \<in> set (app_devices a) \<longleftrightarrow> reg_get i a = Some h" for i h
    by (simp add: reg_get_def)
  have "set ds = {plc_device_of c on | i c on. fleet_of a i = Some (c, on)}"
    by (force simp: ds fleet_of_def m)
  moreover have "pv_id (?f x) = fst x" if "x \<in> set (app_devices a)" for x
    using assms that m [of "fst x" "snd x"] by (cases x) (auto simp: registry_ok_def plc_device_of_def)
  then have "map pv_id ds = map fst (app_devices a)" by (simp add: ds)
  ultimately show ?thesis using d by simp
qed

text \<open>
  C5: the registry is a simple map. After any sequence of requests to add, remove, disconnect and connect
  devices and of tasks ending by themselves, the registry shows the state of the specification; the
  next request is accepted exactly when the specification allows it; and the list of devices shows each
  device once, with its configuration and whether it is polled. All the task numbers, handles and channels
  behind it never show.
\<close>
theorem registry_refines_fleet:
  assumes "registry_ok a"
  shows "let b = run_registry_ops L ops a; m = fleet_ops L ops (fleet_of a) in
    fleet_of b = m \<and> (accepted L x b \<longleftrightarrow> acceptable L x m) \<and>
    (\<exists>ds. data (get_devices b) = Some ds \<and> distinct (map pv_id ds) \<and>
       set ds = {plc_device_of c on | i c on. m i = Some (c, on)})"
proof -
  let ?b = "run_registry_ops L ops a"
  have b: "registry_ok ?b" "fleet_of ?b = fleet_ops L ops (fleet_of a)"
    using fleet.sequences [OF assms, of L ops] by (simp_all add: run_registry_ops_def fleet_ops_def)
  obtain ds where ds: "data (get_devices ?b) = Some ds" by (simp add: get_devices_def)
  show ?thesis using get_devices_fleet [OF b(1) ds] ds b(2) by (simp add: accepted_iff Let_def)
qed

theorem registry_refines_fleet_witness:
  "let m = fleet_ops sample_libs [Add sample_request, Disconnect ''plc-02''] (fleet_of sample_app)
   in fleet_of (run_registry_ops sample_libs [Add sample_request, Disconnect ''plc-02''] sample_app) = m \<and>
     m ''plc-02'' = Some (config_of_request sample_request, False)"
proof -
  have ok: "registry_ok sample_app" by (simp add: sample_app_def registry_ok_new)
  have new: "fleet_of sample_app i = None" for i
    by (simp add: fleet_of_def sample_app_def app_new_def reg_get_def)
  have i: "ar_id sample_request = ''plc-02''" by (simp add: sample_request_def)
  have "can_poll sample_libs (config_of_request sample_request)"
    by (simp add: can_poll_def new_client_def config_of_request_def sample_request_def)
  then have "fleet_ops sample_libs [Add sample_request, Disconnect ''plc-02''] (fleet_of sample_app) ''plc-02'' =
      Some (config_of_request sample_request, False)"
    by (simp add: fleet_ops_def i new)
  then show ?thesis
    using registry_refines_fleet [OF ok, of sample_libs "[Add sample_request, Disconnect ''plc-02'']"]
    by (simp add: Let_def)
qed

end
