(* ===== verification/Answers.thy ===== *)
theory Answers
  imports Server
begin

text \<open>
  The answers of all routes (\<open>main.rs\<close>, \<open>routes.rs\<close>, \<open>auth.rs\<close>, \<open>export.rs\<close>): the JSON that the Flutter client
  parses has one shape whichever handler or middleware wrote it.
\<close>

section \<open>The envelope\<close>

text \<open>
  The common shape of the JSON answers: a flag, and data or an error text; a handler that fails is
  answered with an error status or, by the device, alarm and batch routes, with status 200.
\<close>
fun envelope :: "http_response \<Rightarrow> bool" where
  "envelope r = (case body r of
     JObj fs \<Rightarrow>
       (map_of fs ''success'' = Some (JBool True) \<and> status r \<in> {200, 201} \<and>
          map_of fs ''error'' \<in> {None, Some JNull}) \<or>
       (map_of fs ''success'' = Some (JBool False) \<and> status r \<in> {200, 400, 401, 403, 409, 429, 500} \<and>
          (\<exists>t. map_of fs ''error'' = Some (JStr t)) \<and> map_of fs ''data'' \<in> {None, Some JNull})
   | _ \<Rightarrow> False)"

declare envelope.simps [simp del]

definition proper :: "'a api_response \<Rightarrow> bool" where
  "proper r \<longleftrightarrow> (\<exists>x. r = api_ok x) \<or> (\<exists>e. r = api_err e)"

lemma proper_simps [simp]: "proper (api_ok x)" "proper (api_err e)"
  by (auto simp: proper_def)

lemma envelope_simps [simp]:
  "proper r \<Longrightarrow> envelope (api_http f r)"
  "envelope (json_error st t) \<longleftrightarrow> st \<in> {200, 400, 401, 403, 409, 429, 500}"
  "envelope (json_data st d) \<longleftrightarrow> st \<in> {200, 201}"
  "envelope \<lparr>status = 200, body = JObj [(''success'', JBool True)]\<rparr>"
  by (auto simp: envelope.simps proper_def api_http_def json_error_def json_data_def api_ok_def api_err_def jopt_def)

lemma proper_handlers [simp]:
  "proper (get_devices a)" "proper (fst (get_history_route L dev n a))"
  "proper (fst (list_alarms_route L p a))" "proper (fst (get_alarm_route i a))"
  "proper (fst (list_batches_route bp a))" "proper (fst (get_batch_route bi a))"
  "proper (fst (remove_device d a))" "proper (fst (disconnect_device d a))"
  "proper (fst (post_write L fs dv c b a))" "proper (fst (ack_alarm_route L fa i c b a))"
  "proper (fst (shelve_alarm_route L sf i c b a))" "proper (discover_devices net sr)"
  "proper (browse_opcua net url p')"
  by (auto simp: get_devices_def get_history_route_def list_alarms_route_def get_alarm_route_def
      list_batches_route_def get_batch_route_def remove_device_def disconnect_device_def post_write_def
      ack_alarm_route_def shelve_alarm_route_def discover_devices_def browse_opcua_def Let_def
      split: prod.split option.split sum.split)

lemma proper_starts:
  "add_device L req a = Some (r, b) \<Longrightarrow> proper r" "connect_device L i a = Some (r', b) \<Longrightarrow> proper r'"
  by (auto simp: add_device_def add_device_start_def connect_device_def connect_device_start_def Let_def
      split: option.splits sum.splits if_splits prod.splits)

lemma envelope_auth [simp]:
  "envelope (fst (login L req a))" "envelope (fst (verify_token_handler L h a))"
  "envelope (fst (logout L h a))" "envelope (fst (electronic_signature L sr a))"
  "envelope (fst (list_users a))" "envelope (fst (get_audit_trail p a))"
  "envelope (fst (create_user L uf c b a))"
  by (auto simp: login_def verify_token_handler_def logout_def electronic_signature_def list_users_def
      get_audit_trail_def create_user_def Let_def split: prod.split option.split sum.split bool.split)

lemma envelope_guard:
  "(\<And>c b. Q (fst (nxt c b))) \<Longrightarrow> (\<And>r. envelope r \<Longrightarrow> Q r) \<Longrightarrow> Q (fst (guard_of role L h nxt a))"
  by (cases role) (auto simp: auth_middleware_def require_operator_def require_admin_def Let_def
      split: prod.split option.split sum.split bool.split)

fun answers_text :: "request \<Rightarrow> bool" where
  "answers_text Health = True" | "answers_text (ExportAlarms _) = True"
| "answers_text (ExportBatches _) = True" | "answers_text (ExportAudit _) = True"
| "answers_text (ExportHistory _ _) = True" | "answers_text _ = False"

fun starts_task :: "request \<Rightarrow> bool" where
  "starts_task (AddDevice _) = True" | "starts_task (ConnectDevice _) = True" | "starts_task _ = False"

lemma handle_answer:
  "envelope (fst (handle e h req c a)) \<or>
   (answers_text req \<and> (\<exists>t. fst (handle e h req c a) = text_http t)) \<or>
   (starts_task req \<and> fst (handle e h req c a) = dropped)"
  by (cases req) (auto simp: respond_def respond_opt_def download_def split: option.split dest: proper_starts)

end
