(* ===== verification/OpcuaSim.thy ===== *)
theory OpcuaSim
  imports Prelude
begin

text \<open>
  The OPC UA simulator, \<open>server/src/bin/opcua_sim.rs\<close>: the simulated process and the eight variables
  that its polling action publishes. The sine and cosine of the standard library are the parameters
  \<open>sn\<close> and \<open>cs\<close>, of which only the range is used; what the calls of the opcua library give while the
  server is set up is the parameter \<open>sim_lib\<close>.
\<close>

section \<open>The process\<close>

record sim_state =
  temperature :: u16
  pressure :: u16
  humidity :: u16
  flow_rate :: u16
  batch_state :: u16
  batch_progress :: u16
  ph :: u16
  agitator_rpm :: u16
  tick_count :: u32

definition sim_default :: sim_state where
  "sim_default = \<lparr>temperature = 65, pressure = 1013, humidity = 45, flow_rate = 50, batch_state = 0,
     batch_progress = 0, ph = 70, agitator_rpm = 0, tick_count = 0\<rparr>"

text \<open>The batch state machine: the state and the progress after the tick with this count.\<close>
definition sim_batch :: "u32 \<Rightarrow> u16 \<times> u16 \<Rightarrow> u16 \<times> u16" where
  "sim_batch n sp =
     (case sp of (st, progress) \<Rightarrow>
        if st = 0 then (if n mod 60 = 10 then (1, 0) else (st, progress))
        else if st = 1 then
          (let p = min (progress + 2) 30 in (if 30 \<le> p then 2 else st, p))
        else if st = 2 then
          (let p = min (progress + 1) 90 in (if 90 \<le> p then 3 else st, p))
        else if st = 3 then
          (let p = min (progress + 1) 100 in (if 100 \<le> p then 4 else st, p))
        else if st = 4 then (if n mod 60 = 0 then (0, 0) else (st, progress))
        else (0, progress))"

definition rpm_of :: "u16 \<Rightarrow> u16" where
  "rpm_of st = (if st = 1 then 150 else if st = 2 then 300 else if st = 3 then 100 else 0)"

text \<open>\<open>tick_count\<close> wraps at 32 bits, as in the release build.\<close>
definition sim_tick :: "(f64 \<Rightarrow> f64) \<Rightarrow> (f64 \<Rightarrow> f64) \<Rightarrow> sim_state \<Rightarrow> sim_state" where
  "sim_tick sn cs s =
     (let n = tick_count s + 1;
          x = rat_of_int (uint n);
          (st, progress) = sim_batch n (batch_state s, batch_progress s)
      in \<lparr>temperature = f64_as_u16 (70 + sn (x * (5 / 100)) * 10),
          pressure = f64_as_u16 (1013 + cs (x * (3 / 100)) * 50),
          humidity = f64_as_u16 (47 + sn (x * (2 / 100)) * 8),
          flow_rate = f64_as_u16 (50 + sn (x * (4 / 100)) * 5),
          batch_state = st, batch_progress = progress,
          ph = f64_as_u16 (70 + sn (x * (25 / 1000)) * 2),
          agitator_rpm = rpm_of st, tick_count = n\<rparr>)"

section \<open>The published variables\<close>

definition REG_TEMPERATURE :: u32 where "REG_TEMPERATURE = 1028"
definition REG_PRESSURE :: u32 where "REG_PRESSURE = 1029"
definition REG_HUMIDITY :: u32 where "REG_HUMIDITY = 1030"
definition REG_FLOW_RATE :: u32 where "REG_FLOW_RATE = 1031"
definition REG_BATCH_STATE :: u32 where "REG_BATCH_STATE = 1032"
definition REG_BATCH_PROGRESS :: u32 where "REG_BATCH_PROGRESS = 1033"
definition REG_AGITATOR_RPM :: u32 where "REG_AGITATOR_RPM = 1034"
definition REG_PH :: u32 where "REG_PH = 1035"

lemmas reg_defs = REG_TEMPERATURE_def REG_PRESSURE_def REG_HUMIDITY_def REG_FLOW_RATE_def
  REG_BATCH_STATE_def REG_BATCH_PROGRESS_def REG_AGITATOR_RPM_def REG_PH_def

type_synonym variables = "u32 \<rightharpoonup> u16"

definition initial_variables :: variables where
  "initial_variables = [REG_TEMPERATURE \<mapsto> 65, REG_PRESSURE \<mapsto> 1013, REG_HUMIDITY \<mapsto> 45,
     REG_FLOW_RATE \<mapsto> 50, REG_BATCH_STATE \<mapsto> 0, REG_BATCH_PROGRESS \<mapsto> 0,
     REG_AGITATOR_RPM \<mapsto> 0, REG_PH \<mapsto> 70]"

text \<open>The action that the server runs every second.\<close>
definition polling_action ::
    "(f64 \<Rightarrow> f64) \<Rightarrow> (f64 \<Rightarrow> f64) \<Rightarrow> sim_state \<times> variables \<Rightarrow> sim_state \<times> variables" where
  "polling_action sn cs sv =
     (case sv of (s, v) \<Rightarrow>
       (let s = sim_tick sn cs s in
        (s, v(REG_TEMPERATURE \<mapsto> temperature s, REG_PRESSURE \<mapsto> pressure s,
              REG_HUMIDITY \<mapsto> humidity s, REG_FLOW_RATE \<mapsto> flow_rate s,
              REG_BATCH_STATE \<mapsto> batch_state s, REG_BATCH_PROGRESS \<mapsto> batch_progress s,
              REG_AGITATOR_RPM \<mapsto> agitator_rpm s, REG_PH \<mapsto> ph s))))"

section \<open>The set-up of the server\<close>

text \<open>
  What the calls of the standard library and of the opcua library give: the machine's address by a UDP
  socket, whether the builder delivers a server with these discovery URLs, the index of the namespace,
  whether the folder and a variable are added, whether a variable's value is accepted.
\<close>
record sim_lib =
  sl_udp_bind :: bool
  sl_udp_connect :: bool
  sl_local_addr :: "string option"
  sl_server :: "string list \<Rightarrow> bool"
  sl_namespace :: "string \<Rightarrow> nat option"
  sl_folder :: bool
  sl_add :: "u32 \<Rightarrow> bool"
  sl_set :: "u32 \<Rightarrow> bool"

record sim_variable =
  sv_name :: string
  sv_display :: string
  sv_value :: u16
  sv_good :: bool

definition local_ip :: "sim_lib \<Rightarrow> string" where
  "local_ip l = (case (if sl_udp_bind l \<and> sl_udp_connect l then sl_local_addr l else None) of
     None \<Rightarrow> ''127.0.0.1'' | Some ip \<Rightarrow> ip)"

definition discovery_urls :: "string \<Rightarrow> string list" where
  "discovery_urls ip = [''opc.tcp://127.0.0.1:4840/'', ''opc.tcp://'' @ ip @ '':4840/'']"

text \<open>The variables as they are added, without a status; the degree sign has two bytes.\<close>
definition sim_variables :: "(u32 \<times> sim_variable) list" where
  "sim_variables =
    [(REG_TEMPERATURE, \<lparr>sv_name = ''Temperature'',
        sv_display = ''Temperature ('' @ [CHR 0xC2, CHR 0xB0] @ ''C)'', sv_value = 65, sv_good = False\<rparr>),
     (REG_PRESSURE, \<lparr>sv_name = ''Pressure'', sv_display = ''Pressure (mbar)'', sv_value = 1013,
        sv_good = False\<rparr>),
     (REG_HUMIDITY, \<lparr>sv_name = ''Humidity'', sv_display = ''Humidity (%RH)'', sv_value = 45,
        sv_good = False\<rparr>),
     (REG_FLOW_RATE, \<lparr>sv_name = ''FlowRate'', sv_display = ''Flow Rate (L/min)'', sv_value = 50,
        sv_good = False\<rparr>),
     (REG_BATCH_STATE, \<lparr>sv_name = ''BatchState'',
        sv_display = ''Batch State (0=Idle,1=Heat,2=Run,3=Cool,4=Done)'', sv_value = 0, sv_good = False\<rparr>),
     (REG_BATCH_PROGRESS, \<lparr>sv_name = ''BatchProgress'', sv_display = ''Batch Progress (%)'',
        sv_value = 0, sv_good = False\<rparr>),
     (REG_AGITATOR_RPM, \<lparr>sv_name = ''AgitatorRPM'', sv_display = ''Agitator RPM'', sv_value = 0,
        sv_good = False\<rparr>),
     (REG_PH, \<lparr>sv_name = ''pH'', sv_display = ''pH Level (x10)'', sv_value = 70, sv_good = False\<rparr>)]"

text \<open>The failures of single variables are printed only.\<close>
definition add_variables :: "sim_lib \<Rightarrow> (u32 \<rightharpoonup> sim_variable)" where
  "add_variables l = (\<lambda>reg. if sl_add l reg then map_of sim_variables reg else None)"

definition start_values :: "(u32 \<times> u16) list" where
  "start_values = [(REG_TEMPERATURE, 65), (REG_PRESSURE, 1013), (REG_HUMIDITY, 45),
     (REG_FLOW_RATE, 50), (REG_BATCH_STATE, 0), (REG_BATCH_PROGRESS, 0), (REG_AGITATOR_RPM, 0),
     (REG_PH, 70)]"

fun set_values ::
    "sim_lib \<Rightarrow> (u32 \<times> u16) list \<Rightarrow> (u32 \<rightharpoonup> sim_variable) \<Rightarrow> (u32 \<rightharpoonup> sim_variable)" where
  "set_values l [] space = space"
| "set_values l ((reg, val) # vs) space = set_values l vs
     (case space reg of
        None \<Rightarrow> space
      | Some v \<Rightarrow> if sl_set l reg then space(reg \<mapsto> v\<lparr>sv_value := val, sv_good := True\<rparr>) else space)"

text \<open>
  \<open>main\<close> up to the point where the server runs: the discovery URLs, the index of the namespace, and the
  variables; \<open>None\<close> is a panic.
\<close>
definition sim_setup ::
    "sim_lib \<Rightarrow> (string list \<times> nat \<times> (u32 \<rightharpoonup> sim_variable) \<times> sim_state) option" where
  "sim_setup l =
     (let urls = discovery_urls (local_ip l) in
      if \<not> sl_server l urls then None
      else case sl_namespace l ''urn:pharma-sim'' of
        None \<Rightarrow> None
      | Some ns \<Rightarrow> if \<not> sl_folder l then None
          else Some (urls, ns, set_values l start_values (add_variables l), sim_default))"

lemma set_values_at:
  assumes "distinct (map fst vs)"
  shows "set_values l vs space reg = (case (space reg, map_of vs reg) of
     (Some v, Some val) \<Rightarrow> if sl_set l reg then Some (v\<lparr>sv_value := val, sv_good := True\<rparr>) else Some v
   | _ \<Rightarrow> space reg)"
  using assms
proof (induction l vs space rule: set_values.induct)
  case (2 l r val vs space)
  have "r = reg \<Longrightarrow> map_of vs reg = None" using 2(2) by (simp add: map_of_eq_None_iff)
  then show ?case using 2 by (auto split: option.splits)
qed (auto split: option.splits)

text \<open>
  The simulator starts with its eight variables at the values of the simulated process, each with
  the status good, when the library accepts them; a variable it does not add is missing without an error.
\<close>
theorem sim_setup_variables:
  assumes "sim_setup l = Some (urls, ns, space, s)"
  shows "urls = discovery_urls (local_ip l) \<and> sl_namespace l ''urn:pharma-sim'' = Some ns \<and>
    s = sim_default \<and> map_option sv_value (space reg) = (if sl_add l reg then initial_variables reg else None) \<and>
    (\<forall>v. space reg = Some v \<longrightarrow> sv_good v = sl_set l reg)"
proof -
  have d: "distinct (map fst start_values)" by (simp add: start_values_def reg_defs)
  have sp: "space = set_values l start_values (add_variables l)"
    and rest: "urls = discovery_urls (local_ip l)" "sl_namespace l ''urn:pharma-sim'' = Some ns" "s = sim_default"
    using assms by (auto simp: sim_setup_def Let_def split: if_splits option.splits)
  have v: "map_option sv_value (map_of sim_variables reg) = initial_variables reg"
    and "map_of start_values reg = initial_variables reg"
    by (simp_all add: sim_variables_def start_values_def initial_variables_def reg_defs)
  moreover have "sv_good v = False" if "map_of sim_variables reg = Some v" for v
    using map_of_SomeD [OF that] by (auto simp: sim_variables_def)
  ultimately have "map_option sv_value (space reg) = (if sl_add l reg then initial_variables reg else None) \<and>
    (\<forall>v. space reg = Some v \<longrightarrow> sv_good v = sl_set l reg)"
    unfolding sp set_values_at [OF d]
    by (cases "map_of sim_variables reg") (auto simp: add_variables_def split: option.splits)
  with rest show ?thesis by simp
qed

section \<open>Ranges\<close>

text \<open>The range of sine and cosine.\<close>
definition unit_range :: "(f64 \<Rightarrow> f64) \<Rightarrow> bool" where
  "unit_range f \<longleftrightarrow> (\<forall>x. -1 \<le> f x \<and> f x \<le> 1)"

lemma f64_as_u16_range:
  assumes "rat_of_nat lo \<le> x" and "x \<le> rat_of_nat hi" and "hi < 65535"
  shows "lo \<le> unat (f64_as_u16 x) \<and> unat (f64_as_u16 x) \<le> hi"
proof -
  have "rat_of_int (int hi) < rat_of_int 65535" using assms(3) by (simp only: of_int_less_iff)
  then have "x < 65535" "0 \<le> x" using assms(1,2) by simp_all
  then have c: "f64_as_u16 x = word_of_int \<lfloor>x\<rfloor>" by (simp add: f64_as_u16_def)
  have f: "int lo \<le> \<lfloor>x\<rfloor>" "\<lfloor>x\<rfloor> \<le> int hi"
    using assms(1,2) by (simp_all add: le_floor_iff floor_le_iff)
  then have "0 \<le> \<lfloor>x\<rfloor>" "\<lfloor>x\<rfloor> < 65536" using assms(3) by linarith+
  then have "uint (word_of_int \<lfloor>x\<rfloor> :: u16) = \<lfloor>x\<rfloor>"
    by (simp add: uint_word_of_int mod_pos_pos_trivial)
  then have "int (unat (f64_as_u16 x)) = \<lfloor>x\<rfloor>" by (simp add: c)
  with f show ?thesis by linarith
qed

definition sensors_in_range :: "sim_state \<Rightarrow> bool" where
  "sensors_in_range s \<longleftrightarrow> unat (temperature s) \<in> {60..80} \<and> unat (pressure s) \<in> {963..1063} \<and>
     unat (humidity s) \<in> {39..55} \<and> unat (flow_rate s) \<in> {45..55} \<and> unat (ph s) \<in> {68..72}"

lemma sim_tick_sensors:
  assumes "unit_range sn" and "unit_range cs"
  shows "sensors_in_range (sim_tick sn cs s)"
proof -
  have b: "-1 \<le> sn x" "sn x \<le> 1" "-1 \<le> cs x" "cs x \<le> 1" for x
    using assms by (simp_all add: unit_range_def)
  have r: "lo \<le> unat (f64_as_u16 (m + y * d)) \<and> unat (f64_as_u16 (m + y * d)) \<le> hi"
    if "-1 \<le> y" "y \<le> 1" "0 \<le> d" "rat_of_nat lo \<le> m - d" "m + d \<le> rat_of_nat hi" "hi < 65535"
    for lo hi m y d
  proof (rule f64_as_u16_range)
    have "-1 * d \<le> y * d" using that(1,3) by (rule mult_right_mono)
    moreover have "y * d \<le> 1 * d" using that(2,3) by (rule mult_right_mono)
    ultimately show "rat_of_nat lo \<le> m + y * d" "m + y * d \<le> rat_of_nat hi"
      using that(4,5) by linarith+
  qed (rule that(6))
  let ?x = "rat_of_int (uint (tick_count s + 1))"
  show ?thesis
    using r [OF b(1,2) [of "?x * (5 / 100)"], of 10 60 70 80]
      r [OF b(3,4) [of "?x * (3 / 100)"], of 50 963 1013 1063]
      r [OF b(1,2) [of "?x * (2 / 100)"], of 8 39 47 55]
      r [OF b(1,2) [of "?x * (4 / 100)"], of 5 45 50 55]
      r [OF b(1,2) [of "?x * (25 / 1000)"], of 2 68 70 72]
    by (simp add: sensors_in_range_def sim_tick_def Let_def split_beta)
qed

section \<open>The batch cycle\<close>

text \<open>The state and the progress as a function of the tick's place in the cycle of 120 ticks.\<close>
definition cycle_place :: "nat \<Rightarrow> u16 \<times> u16" where
  "cycle_place m = (if m < 10 then (0, 0)
     else if m < 25 then (1, of_nat (2 * (m - 10)))
     else if m < 85 then (2, of_nat (m + 5))
     else if m < 95 then (3, of_nat (m + 5))
     else (4, 100))"

lemma cycle_step:
  "list_all (\<lambda>m. sim_batch (of_nat (Suc m)) (cycle_place m) = cycle_place (Suc m mod 120)) [0..<120]"
  by code_simp


lemma sim_batch_mod: "a mod 60 = b mod 60 \<Longrightarrow> sim_batch a = sim_batch b"
  by (simp add: sim_batch_def fun_eq_iff)

lemma cycle_next:
  assumes "Suc n < 2 ^ 32"
  shows "sim_batch (of_nat (Suc n)) (cycle_place (n mod 120)) = cycle_place (Suc n mod 120)"
proof -
  have step: "sim_batch (of_nat (Suc m)) (cycle_place m) = cycle_place (Suc m mod 120)" if "m < 120" for m
    using cycle_step that by (auto simp: list_all_iff)
  have "n mod 120 mod 60 = n mod 60" by (rule mod_mod_cancel) simp
  then have "Suc n mod 60 = Suc (n mod 120) mod 60"
    using mod_Suc_eq [of n 60] mod_Suc_eq [of "n mod 120" 60] by simp
  moreover have "unat (of_nat k :: u32) = k" if "k < 2 ^ 32" for k
    using that by (simp add: unat_of_nat take_bit_nat_eq_self)
  moreover have "Suc (n mod 120) < 2 ^ 32" using assms by (simp add: less_le_trans)
  ultimately have "(of_nat (Suc n) :: u32) mod 60 = of_nat (Suc (n mod 120)) mod 60"
    using assms by (simp add: word_unat_eq_iff unat_mod_distrib del: of_nat_Suc)
  from sim_batch_mod [OF this] step [of "n mod 120"] show ?thesis
    by (simp add: mod_Suc_eq)
qed

text \<open>
  C38: the simulated batch runs in a cycle of 120 ticks, and the sensors stay in their ranges. After
  \<open>n\<close> ticks, as long as the 32-bit count has not wrapped, the state and the progress are those of the
  place \<open>n mod 120\<close> in the cycle: idle for 10 ticks, heating from 0 to 30 per cent in 15, running to
  90 in 60, cooling to 100 in 10, then complete for 25. The agitator speed goes with the state, and
  temperature, pressure, humidity, flow and pH stay within 60-80, 963-1063, 39-55, 45-55 and 68-72.
\<close>
theorem sim_cycle:
  assumes "unit_range sn" and "unit_range cs" and "n < 2 ^ 32"
  shows "let s = (sim_tick sn cs ^^ n) sim_default in
    tick_count s = of_nat n \<and> (batch_state s, batch_progress s) = cycle_place (n mod 120) \<and>
    agitator_rpm s = rpm_of (batch_state s) \<and> sensors_in_range s"
  using assms(3)
proof (induction n)
  case 0
  show ?case by (simp add: sim_default_def cycle_place_def rpm_of_def sensors_in_range_def)
next
  case (Suc n)
  let ?s = "(sim_tick sn cs ^^ n) sim_default"
  have IH: "tick_count ?s = of_nat n" "(batch_state ?s, batch_progress ?s) = cycle_place (n mod 120)"
    using Suc by (simp_all add: Let_def)
  have c: "tick_count ?s + 1 = of_nat (Suc n)" by (simp add: IH(1))
  obtain st p where sp: "cycle_place (Suc n mod 120) = (st, p)" by fastforce
  have sb: "sim_batch (tick_count ?s + 1) (batch_state ?s, batch_progress ?s) = (st, p)"
    unfolding IH(2) c using cycle_next [OF Suc.prems] sp by simp
  have t: "batch_state (sim_tick sn cs ?s) = st" "batch_progress (sim_tick sn cs ?s) = p"
    "agitator_rpm (sim_tick sn cs ?s) = rpm_of st" "tick_count (sim_tick sn cs ?s) = tick_count ?s + 1"
    by (simp_all add: sim_tick_def Let_def sb)
  then show ?case using sp c sim_tick_sensors [OF assms(1,2), of ?s] by (simp add: Let_def)
qed

theorem sim_cycle_witness:
  "(let s = (sim_tick (\<lambda>_. 0) (\<lambda>_. 1) ^^ 205) sim_default in
      (batch_state s, batch_progress s) = (3, 90)) \<and> cycle_place (205 mod 120) = (3, 90)"
proof -
  have "unit_range (\<lambda>_. 0)" "unit_range (\<lambda>_. 1)" by (simp_all add: unit_range_def)
  moreover have "cycle_place (205 mod 120) = (3, 90)" by code_simp
  ultimately show ?thesis using sim_cycle [of "\<lambda>_. 0" "\<lambda>_. 1" 205] by (auto simp: Let_def)
qed

section \<open>Writes from the HMI\<close>

text \<open>
  The simulator forgets what the HMI writes. A value written to any of the eight variables, the
  agitator speed included, is gone after the next polling action: the variables are those that the
  action would have left without the write.
\<close>
theorem sim_overwrites_writes:
  assumes "reg \<in> {REG_TEMPERATURE, REG_PRESSURE, REG_HUMIDITY, REG_FLOW_RATE, REG_BATCH_STATE,
    REG_BATCH_PROGRESS, REG_AGITATOR_RPM, REG_PH}"
  shows "polling_action sn cs (s, v(reg \<mapsto> val)) = polling_action sn cs (s, v)"
  using assms by (auto simp: polling_action_def Let_def fun_eq_iff)

theorem sim_overwrites_writes_witness:
  "snd (polling_action (\<lambda>_. 0) (\<lambda>_. 1) (sim_default, initial_variables(REG_AGITATOR_RPM \<mapsto> 250)))
     REG_AGITATOR_RPM = Some 0"
proof -
  have "polling_action (\<lambda>_. 0) (\<lambda>_. 1) (sim_default, initial_variables(REG_AGITATOR_RPM \<mapsto> 250)) =
      polling_action (\<lambda>_. 0) (\<lambda>_. 1) (sim_default, initial_variables)"
    by (rule sim_overwrites_writes) simp
  then show ?thesis
    by (simp add: polling_action_def Let_def sim_tick_def sim_default_def sim_batch_def rpm_of_def
        reg_defs)
qed

end
